theory Spec2Isabelle
  imports Complex_Main
begin

unbundle bit_operations_syntax

section \<open>JavaScript numbers\<close>

text \<open>
  The class computes with JavaScript numbers, which are IEEE 754 double-precision values.
  A number is modelled as \<open>NaN\<close> or as a finite value, a rational. Every operation
  that rounds in JavaScript rounds here: its exact result is passed through \<open>rnd\<close>,
  the rounding of a rational to the nearest double, ties to the even significand.
  The infinities are left out: no operation of the class produces one from finite
  operands, since the quantities it computes with are clamped inputs or bytes and every
  division is by a non-zero constant or is guarded by \<open>delta == 0\<close>, and a caller
  that passes one is outside the model. An optional parameter that was not passed
  (\<open>undefined\<close>) is \<open>None\<close>.
\<close>

subsection \<open>Rounding to a double\<close>

text \<open>
  \<open>bits n\<close> is the number of binary digits of a positive integer, and \<open>ilog2 x\<close>
  the exponent \<open>e\<close> with \<open>2^e \<le> x < 2^(e+1)\<close> of a positive rational. A double
  has a significand of 53 bits, so around \<open>x\<close> the doubles are the multiples of
  \<open>ulp x = 2^(e - 52)\<close>, where the exponent is not taken below \<open>-1022\<close> (the
  subnormal range). \<open>rnd x\<close> is the multiple of \<open>ulp x\<close> nearest to \<open>x\<close>, the
  even one of two equally near.
\<close>

function bits :: "int \<Rightarrow> int" where
  "bits n = (if n \<le> 0 then 0 else 1 + bits (n div 2))"
  by pat_completeness auto
termination
  by (relation "measure nat") auto

declare bits.simps [simp del]

definition ilog2 :: "rat \<Rightarrow> int" where
  "ilog2 x = (if 1 \<le> x then bits \<lfloor>x\<rfloor> - 1 else - bits (\<lceil>1 / x\<rceil> - 1))"

definition roundHalfEven :: "rat \<Rightarrow> int" where
  "roundHalfEven t = (let f = \<lfloor>t\<rfloor>; d = t - of_int f in
     if d < 1 / 2 then f else if 1 / 2 < d then f + 1 else if even f then f else f + 1)"

definition ulp :: "rat \<Rightarrow> rat" where
  "ulp x = 2 powi (max (ilog2 \<bar>x\<bar>) (- 1022) - 52)"

definition rnd :: "rat \<Rightarrow> rat" where
  "rnd x = (if x = 0 then 0 else sgn x * of_int (roundHalfEven (\<bar>x\<bar> / ulp x)) * ulp x)"

subsection \<open>Arithmetic\<close>

datatype jsnum = NaN | Num rat

fun jadd :: "jsnum \<Rightarrow> jsnum \<Rightarrow> jsnum" where
  "jadd (Num x) (Num y) = Num (rnd (x + y))"
| "jadd _ _ = NaN"

fun jsub :: "jsnum \<Rightarrow> jsnum \<Rightarrow> jsnum" where
  "jsub (Num x) (Num y) = Num (rnd (x - y))"
| "jsub _ _ = NaN"

fun jmul :: "jsnum \<Rightarrow> jsnum \<Rightarrow> jsnum" where
  "jmul (Num x) (Num y) = Num (rnd (x * y))"
| "jmul _ _ = NaN"

text \<open>Division by zero never happens in the class; the model sends it to \<open>NaN\<close>.\<close>

fun jdiv :: "jsnum \<Rightarrow> jsnum \<Rightarrow> jsnum" where
  "jdiv (Num x) (Num y) = (if y = 0 then NaN else Num (rnd (x / y)))"
| "jdiv _ _ = NaN"

text \<open>Truncation towards zero, the first step of \<open>ToInt32\<close> and of \<open>%\<close>.\<close>

definition trunc :: "rat \<Rightarrow> int" where
  "trunc q = (if 0 \<le> q then \<lfloor>q\<rfloor> else \<lceil>q\<rceil>)"

text \<open>
  The remainder operator \<open>%\<close>: the result has the sign of the dividend. The
  remainder of two doubles is a double, so nothing is rounded.
\<close>

fun jrem :: "jsnum \<Rightarrow> jsnum \<Rightarrow> jsnum" where
  "jrem (Num x) (Num y) = (if y = 0 then NaN else Num (x - y * of_int (trunc (x / y))))"
| "jrem _ _ = NaN"

fun jabs :: "jsnum \<Rightarrow> jsnum" where
  "jabs (Num x) = Num \<bar>x\<bar>"
| "jabs NaN = NaN"

text \<open>\<open>Math.min\<close> and \<open>Math.max\<close> return \<open>NaN\<close> as soon as one argument is \<open>NaN\<close>.\<close>

fun jmin :: "jsnum \<Rightarrow> jsnum \<Rightarrow> jsnum" where
  "jmin (Num x) (Num y) = Num (min x y)"
| "jmin _ _ = NaN"

fun jmax :: "jsnum \<Rightarrow> jsnum \<Rightarrow> jsnum" where
  "jmax (Num x) (Num y) = Num (max x y)"
| "jmax _ _ = NaN"

text \<open>Comparisons: every ordering test and \<open>==\<close> is false on \<open>NaN\<close>, \<open>!=\<close> is true.\<close>

fun jle :: "jsnum \<Rightarrow> jsnum \<Rightarrow> bool" where
  "jle (Num x) (Num y) = (x \<le> y)"
| "jle _ _ = False"

fun jlt :: "jsnum \<Rightarrow> jsnum \<Rightarrow> bool" where
  "jlt (Num x) (Num y) = (x < y)"
| "jlt _ _ = False"

fun jgt :: "jsnum \<Rightarrow> jsnum \<Rightarrow> bool" where
  "jgt (Num x) (Num y) = (x > y)"
| "jgt _ _ = False"

fun jeq :: "jsnum \<Rightarrow> jsnum \<Rightarrow> bool" where
  "jeq (Num x) (Num y) = (x = y)"
| "jeq _ _ = False"

definition jne :: "jsnum \<Rightarrow> jsnum \<Rightarrow> bool" where
  "jne x y = (\<not> jeq x y)"

text \<open>\<open>!x\<close> on an optional number: true for \<open>undefined\<close>, \<open>NaN\<close> and \<open>0\<close>.\<close>

fun falsy :: "jsnum option \<Rightarrow> bool" where
  "falsy None = True"
| "falsy (Some NaN) = True"
| "falsy (Some (Num x)) = (x = 0)"

text \<open>\<open>Math.round\<close> rounds halves up.\<close>

fun jround :: "jsnum \<Rightarrow> jsnum" where
  "jround (Num x) = Num (of_int \<lfloor>x + 1 / 2\<rfloor>)"
| "jround NaN = NaN"

text \<open>
  \<open>+(x).toFixed(1)\<close>: \<open>toFixed\<close> prints the multiple of a tenth nearest to the
  exact value of \<open>x\<close>, halves away from zero, and the unary plus reads the text back
  as the nearest double.
\<close>

fun toFixed1 :: "jsnum \<Rightarrow> jsnum" where
  "toFixed1 (Num x) = Num (rnd (sgn x * of_int \<lfloor>\<bar>x\<bar> * 10 + 1 / 2\<rfloor> / 10))"
| "toFixed1 NaN = NaN"

subsection \<open>The 32-bit integer operators\<close>

text \<open>
  \<open><<\<close>, \<open>>>\<close>, \<open>|\<close> and \<open>&\<close> convert their operands with \<open>ToInt32\<close>
  (\<open>NaN\<close> becomes 0, the fraction is dropped, the value wraps into the signed 32-bit
  range) and return a signed 32-bit integer; the wrap-around is \<open>signed_take_bit 31\<close>.
\<close>

fun toInt32 :: "jsnum \<Rightarrow> int" where
  "toInt32 NaN = 0"
| "toInt32 (Num x) = signed_take_bit 31 (trunc x)"

definition jshl :: "jsnum \<Rightarrow> nat \<Rightarrow> jsnum" where
  "jshl x n = Num (of_int (signed_take_bit 31 (push_bit n (toInt32 x))))"

definition jsar :: "jsnum \<Rightarrow> nat \<Rightarrow> jsnum" where
  "jsar x n = Num (of_int (drop_bit n (toInt32 x)))"

definition jor :: "jsnum \<Rightarrow> jsnum \<Rightarrow> jsnum" where
  "jor x y = Num (of_int (toInt32 x OR toInt32 y))"

definition jand :: "jsnum \<Rightarrow> jsnum \<Rightarrow> jsnum" where
  "jand x y = Num (of_int (toInt32 x AND toInt32 y))"

subsection \<open>Strings\<close>

text \<open>
  \<open>parseInt(`0x${rest}`)\<close>: the prefix \<open>0x\<close> selects radix 16, the longest run of
  hexadecimal digits that follows is read as an integer and returned as the nearest
  double, and the result is \<open>NaN\<close> when that run is empty.
\<close>

definition hexDigitVal :: "char \<Rightarrow> nat option" where
  "hexDigitVal ch = (let n = (of_char ch :: nat) in
     if 48 \<le> n \<and> n \<le> 57 then Some (n - 48)
     else if 97 \<le> n \<and> n \<le> 102 then Some (n - 87)
     else if 65 \<le> n \<and> n \<le> 70 then Some (n - 55)
     else None)"

fun hexPrefix :: "string \<Rightarrow> nat list" where
  "hexPrefix [] = []"
| "hexPrefix (ch # cs) = (case hexDigitVal ch of None \<Rightarrow> [] | Some v \<Rightarrow> v # hexPrefix cs)"

definition parseInt0x :: "string \<Rightarrow> jsnum" where
  "parseInt0x rest = (case hexPrefix rest of
       [] \<Rightarrow> NaN
     | ds \<Rightarrow> Num (rnd (of_nat (foldl (\<lambda>acc d. 16 * acc + d) 0 ds))))"

text \<open>
  The template literal \<open>`${alpha}`\<close>. A whole number is printed in decimal; of a
  number with a fraction only the sign, the whole part and the point are produced, which
  is as far as \<open>parseInt\<close> reads. Numbers that JavaScript prints in exponent notation
  are outside the model.
\<close>

fun digits10 :: "nat \<Rightarrow> string" where
  "digits10 n = (if n < 10 then [''0123456789'' ! n]
     else digits10 (n div 10) @ [''0123456789'' ! (n mod 10)])"

declare digits10.simps [simp del]

definition numToString :: "rat \<Rightarrow> string" where
  "numToString q = (if q < 0 then ''-'' else '''') @ digits10 (nat \<lfloor>\<bar>q\<bar>\<rfloor>)
     @ (if of_int \<lfloor>q\<rfloor> = q then '''' else ''.'')"

fun template :: "jsnum option \<Rightarrow> string" where
  "template None = ''undefined''"
| "template (Some NaN) = ''NaN''"
| "template (Some (Num q)) = numToString q"

section \<open>The numeric helper \<open>clamp\<close>\<close>

text \<open>\<open>clamp(v, max, min = 0)\<close> is \<open>Math.max(min, Math.min(v, max))\<close>.\<close>

definition clamp :: "jsnum \<Rightarrow> jsnum \<Rightarrow> jsnum \<Rightarrow> jsnum" where
  "clamp v mx mn = jmax mn (jmin v mx)"

section \<open>The data of \<open>colors.ts\<close>\<close>

text \<open>
  \<open>ColorObject\<close>, \<open>RGBObject\<close> and \<open>HSLObject\<close> are the interfaces of the
  source; the \<open>color\<close> field of the two views is named \<open>rgb_color\<close> and
  \<open>hsl_color\<close> here. \<open>Color\<close> holds the private fields \<open>c\<close>, \<open>a\<close>,
  \<open>lhsl\<close> and \<open>lrgb\<close> of the class (\<open>col_c\<close> and \<open>col_a\<close> here). The static
  field \<open>Color.colorMode\<close> is passed to the operations that read it.
\<close>

datatype ColorMode = RGB | HSL

record ColorObject =
  color :: jsnum
  alpha :: jsnum

record RGBObject =
  rgb_color :: jsnum
  red :: jsnum
  green :: jsnum
  blue :: jsnum

record HSLObject =
  hsl_color :: jsnum
  hue :: jsnum
  saturation :: jsnum
  lightness :: jsnum

record Color =
  col_c :: jsnum
  col_a :: jsnum
  lhsl :: "HSLObject option"
  lrgb :: "RGBObject option"

text \<open>The first constructor argument is a string or a number.\<close>

datatype arg = Str string | Number jsnum

text \<open>The only exception the class throws itself: \<open>Invalid Hexadecimal String Provided.\<close>\<close>

datatype error = InvalidFormat

section \<open>The static conversions\<close>

text \<open>
  \<open>getColorValueFromRGB\<close> (the \<open>console.log\<close> call has no effect on the result and
  is not modelled).
\<close>

definition getColorValueFromRGB :: "jsnum \<Rightarrow> jsnum \<Rightarrow> jsnum \<Rightarrow> jsnum \<Rightarrow> ColorObject" where
  "getColorValueFromRGB r0 g0 b0 a0 =
     (let r = clamp r0 (Num 255) (Num 0);
          g = clamp g0 (Num 255) (Num 0);
          b = clamp b0 (Num 255) (Num 0);
          a = clamp a0 (Num 255) (Num 0)
      in \<lparr>color = jor (jor (jshl r 16) (jshl g 8)) b, alpha = a\<rparr>)"

text \<open>
  The \<open>if\<close>/\<open>else if\<close> chain of \<open>getColorValueFromHSL\<close> that picks the triple
  \<open>(r, g, b)\<close> from \<open>h\<close>, \<open>c\<close> and \<open>x\<close>, with the comparisons of the source.
\<close>

definition hslSextant :: "jsnum \<Rightarrow> jsnum \<Rightarrow> jsnum \<Rightarrow> jsnum \<times> jsnum \<times> jsnum" where
  "hslSextant h c x =
     (if jle (Num 0) h \<and> jgt h (Num 60) then (c, x, Num 0)
      else if jle (Num 60) h \<and> jgt h (Num 120) then (x, c, Num 0)
      else if jle (Num 120) h \<and> jgt h (Num 180) then (Num 0, c, x)
      else if jle (Num 180) h \<and> jgt h (Num 240) then (Num 0, x, c)
      else if jle (Num 300) h \<and> jgt h (Num 360) then (c, Num 0, x)
      else (Num 0, Num 0, Num 0))"

definition getColorValueFromHSL :: "jsnum \<Rightarrow> jsnum \<Rightarrow> jsnum \<Rightarrow> jsnum option \<Rightarrow> ColorObject" where
  "getColorValueFromHSL h0 s0 l0 a0 =
     (let h = clamp h0 (Num 360) (Num 0);
          s = jdiv (clamp s0 (Num 100) (Num 0)) (Num 100);
          l = jdiv (clamp l0 (Num 100) (Num 0)) (Num 100);
          a = clamp (case a0 of None \<Rightarrow> Num 255 | Some v \<Rightarrow> v) (Num 255) (Num 0);
          c = jmul (jsub (Num 1) (jabs (jsub (jmul (Num 2) l) (Num 1)))) s;
          x = jmul c (jsub (Num 1) (jabs (jsub (jrem (jdiv h (Num 60)) (Num 2)) (Num 1))));
          m = jsub l (jdiv c (Num 2));
          (r1, g1, b1) = hslSextant h c x;
          r = jmul (jadd r1 m) (Num 255);
          g = jmul (jadd g1 m) (Num 255);
          b = jmul (jadd b1 m) (Num 255)
      in \<lparr>color = jor (jor (jshl r 16) (jshl g 8)) b, alpha = a\<rparr>)"

section \<open>The parameter resolver\<close>

text \<open>
  The part of \<open>parseParameters\<close> after the string block, for an \<open>a\<close> that is a
  number by then: the default of \<open>alpha\<close> and the \<open>switch\<close> on the colour mode.
\<close>

definition resolveNumeric ::
  "ColorMode \<Rightarrow> jsnum \<Rightarrow> jsnum option \<Rightarrow> jsnum option \<Rightarrow> jsnum option \<Rightarrow> ColorObject" where
  "resolveNumeric mode a b c alpha0 =
     (let alpha1 = (if falsy alpha0 then Some (Num 255) else alpha0) in
      case mode of
        RGB \<Rightarrow>
          (let b' = (if falsy b then a else (case b of Some v \<Rightarrow> v | None \<Rightarrow> a));
               c' = (if falsy c then a else (case c of Some v \<Rightarrow> v | None \<Rightarrow> a))
           in getColorValueFromRGB a b' c' (case alpha1 of Some v \<Rightarrow> v | None \<Rightarrow> Num 255))
      | HSL \<Rightarrow>
          (let b' = (if falsy b then Num 50 else (case b of Some v \<Rightarrow> v | None \<Rightarrow> Num 50));
               c' = (if falsy c then Num 50 else (case c of Some v \<Rightarrow> v | None \<Rightarrow> Num 50))
           in getColorValueFromHSL a b' c' alpha1))"

text \<open>
  The string block: an optional leading \<open>#\<close> is removed, the length is checked, and
  the digits of the colour and the text \<open>t\<close> of the alpha byte are prepared. For a
  string of length 4 the last character is popped and \<open>t\<close> is then overwritten by
  \<open>`${alpha}${alpha}`\<close>, built from the parameter \<open>alpha\<close>.
\<close>

definition stripHash :: "string \<Rightarrow> string" where
  "stripHash s = (case s of ch # rest \<Rightarrow> (if ch = CHR ''#'' then rest else s) | [] \<Rightarrow> s)"

definition hexParts :: "string \<Rightarrow> jsnum option \<Rightarrow> string \<times> string" where
  "hexParts a alpha0 =
     (let len = length a in
      if len = 3 \<or> len = 4 then
        (let (arr, t) = (if len = 4 then (butlast a, template alpha0 @ template alpha0)
                         else (a, ''ff''))
         in (concat (map (\<lambda>val. [val, val]) arr), t))
      else if len = 8 then (take 6 a, [a ! 6, a ! 7])
      else (a, ''ff''))"

definition parseParameters ::
  "ColorMode \<Rightarrow> arg \<Rightarrow> jsnum option \<Rightarrow> jsnum option \<Rightarrow> jsnum option \<Rightarrow> error + ColorObject" where
  "parseParameters mode a0 b c alpha0 =
     (case a0 of
        Str s0 \<Rightarrow>
          (let s = stripHash s0; len = length s in
           if len \<noteq> 3 \<and> len \<noteq> 4 \<and> len \<noteq> 6 \<and> len \<noteq> 8 then Inl InvalidFormat
           else
             (let (digits, t) = hexParts s alpha0;
                  a = parseInt0x digits;
                  alpha1 = parseInt0x t
              in if falsy b \<and> falsy c then Inr \<lparr>color = a, alpha = alpha1\<rparr>
                 else Inr (resolveNumeric mode a b c (Some alpha1))))
      | Number a \<Rightarrow> Inr (resolveNumeric mode a b c alpha0))"

section \<open>The class \<open>Color\<close>\<close>

definition Color_new ::
  "ColorMode \<Rightarrow> arg \<Rightarrow> jsnum option \<Rightarrow> jsnum option \<Rightarrow> jsnum option \<Rightarrow> error + Color" where
  "Color_new mode a b c d =
     (case parseParameters mode a b c d of
        Inl e \<Rightarrow> Inl e
      | Inr co \<Rightarrow> Inr \<lparr>col_c = color co, col_a = alpha co, lhsl = None, lrgb = None\<rparr>)"

subsection \<open>Getters\<close>

text \<open>
  A getter that fills a cache returns the value read and the instance after the read.
  \<open>rgb_of\<close> is the object literal the \<open>rgb\<close> getter builds, \<open>hsl_of\<close> the
  computation inside the \<open>hsl\<close> getter from the three channels it has read.
\<close>

definition get_color :: "Color \<Rightarrow> jsnum" where
  "get_color s = col_c s"

definition get_alpha :: "Color \<Rightarrow> jsnum" where
  "get_alpha s = col_a s"

definition rgb_of :: "jsnum \<Rightarrow> RGBObject" where
  "rgb_of col = \<lparr>rgb_color = col,
                 red = jsar (jand col (Num 0xff0000)) 16,
                 green = jsar (jand col (Num 0xff00)) 8,
                 blue = jand col (Num 0xff)\<rparr>"

definition get_rgb :: "Color \<Rightarrow> RGBObject \<times> Color" where
  "get_rgb s =
     (let fill = (let v = rgb_of (get_color s) in (v, s\<lparr>lrgb := Some v\<rparr>)) in
      case lrgb s of
        None \<Rightarrow> fill
      | Some v \<Rightarrow> if jne (rgb_color v) (get_color s) then fill else (v, s))"

definition get_red :: "Color \<Rightarrow> jsnum \<times> Color" where
  "get_red s = (let (v, s') = get_rgb s in (red v, s'))"

definition get_green :: "Color \<Rightarrow> jsnum \<times> Color" where
  "get_green s = (let (v, s') = get_rgb s in (green v, s'))"

definition get_blue :: "Color \<Rightarrow> jsnum \<times> Color" where
  "get_blue s = (let (v, s') = get_rgb s in (blue v, s'))"

definition hsl_of :: "jsnum \<Rightarrow> jsnum \<Rightarrow> jsnum \<Rightarrow> jsnum \<Rightarrow> HSLObject" where
  "hsl_of col red0 green0 blue0 =
     (let r = jdiv red0 (Num 255);
          g = jdiv green0 (Num 255);
          b = jdiv blue0 (Num 255);
          cmin = jmin (jmin r g) b;
          cmax = jmax (jmax r g) b;
          delta = jsub cmax cmin;
          h0 = (if jeq delta (Num 0) then Num 0
                else if jeq cmax r then jrem (jdiv (jsub g b) delta) (Num 6)
                else if jeq cmax g then jadd (jdiv (jsub b r) delta) (Num 2)
                else jadd (jdiv (jsub r g) delta) (Num 4));
          h1 = jround (jmul h0 (Num 60));
          h = (if jlt h1 (Num 0) then jadd h1 (Num 360) else h1);
          l0 = jdiv (jadd cmax cmin) (Num 2);
          s0 = (if jeq delta (Num 0) then Num 0
                else jdiv delta (jsub (Num 1) (jabs (jsub (jmul (Num 2) l0) (Num 1)))));
          s = toFixed1 (jmul s0 (Num 100));
          l = toFixed1 (jmul l0 (Num 100))
      in \<lparr>hsl_color = col, hue = h, saturation = s, lightness = l\<rparr>)"

definition get_hsl :: "Color \<Rightarrow> HSLObject \<times> Color" where
  "get_hsl s =
     (let fill =
        (let (r, s1) = get_red s;
             (g, s2) = get_green s1;
             (b, s3) = get_blue s2;
             v = hsl_of (get_color s3) r g b
         in (v, s3\<lparr>lhsl := Some v\<rparr>)) in
      case lhsl s of
        None \<Rightarrow> fill
      | Some v \<Rightarrow> if jne (hsl_color v) (get_color s) then fill else (v, s))"

definition get_hue :: "Color \<Rightarrow> jsnum \<times> Color" where
  "get_hue s = (let (v, s') = get_hsl s in (hue v, s'))"

definition get_saturation :: "Color \<Rightarrow> jsnum \<times> Color" where
  "get_saturation s = (let (v, s') = get_hsl s in (saturation v, s'))"

definition get_lightness :: "Color \<Rightarrow> jsnum \<times> Color" where
  "get_lightness s = (let (v, s') = get_hsl s in (lightness v, s'))"

subsection \<open>Setters\<close>

text \<open>
  The arguments of the conversion are read from left to right, each read passing the
  instance on, and the field \<open>c\<close> is assigned last.
\<close>

definition set_red :: "Color \<Rightarrow> jsnum \<Rightarrow> Color" where
  "set_red s v =
     (let (g, s1) = get_green s; (b, s2) = get_blue s1
      in s2\<lparr>col_c := color (getColorValueFromRGB v g b (get_alpha s2))\<rparr>)"

definition set_green :: "Color \<Rightarrow> jsnum \<Rightarrow> Color" where
  "set_green s v =
     (let (r, s1) = get_red s; (b, s2) = get_blue s1
      in s2\<lparr>col_c := color (getColorValueFromRGB r v b (get_alpha s2))\<rparr>)"

definition set_blue :: "Color \<Rightarrow> jsnum \<Rightarrow> Color" where
  "set_blue s v =
     (let (r, s1) = get_red s; (g, s2) = get_green s1
      in s2\<lparr>col_c := color (getColorValueFromRGB r g v (get_alpha s2))\<rparr>)"

definition set_hue :: "Color \<Rightarrow> jsnum \<Rightarrow> Color" where
  "set_hue s v =
     (let (sa, s1) = get_saturation s; (li, s2) = get_lightness s1
      in s2\<lparr>col_c := color (getColorValueFromHSL v sa li (Some (get_alpha s2)))\<rparr>)"

definition set_saturation :: "Color \<Rightarrow> jsnum \<Rightarrow> Color" where
  "set_saturation s v =
     (let (hu, s1) = get_hue s; (li, s2) = get_lightness s1
      in s2\<lparr>col_c := color (getColorValueFromHSL hu v li (Some (get_alpha s2)))\<rparr>)"

definition set_lightness :: "Color \<Rightarrow> jsnum \<Rightarrow> Color" where
  "set_lightness s v =
     (let (hu, s1) = get_hue s; (sa, s2) = get_saturation s1
      in s2\<lparr>col_c := color (getColorValueFromHSL hu sa v (Some (get_alpha s2)))\<rparr>)"

text \<open>
  The \<open>hex\<close> setter calls the resolver with the string alone and assigns only \<open>c\<close>;
  an exception of the resolver leaves the instance as it was.
\<close>

definition set_hex :: "ColorMode \<Rightarrow> Color \<Rightarrow> string \<Rightarrow> error + Color" where
  "set_hex mode s hex =
     (case parseParameters mode (Str hex) None None None of
        Inl e \<Rightarrow> Inl e
      | Inr co \<Rightarrow> Inr (s\<lparr>col_c := color co\<rparr>))"

text \<open>
  The body of the \<open>alpha\<close> setter is \<open>this.alpha = alpha\<close>: an assignment to the
  accessor property \<open>alpha\<close>, which calls the same setter again. The call never
  returns (the engine ends it with a stack overflow); \<open>None\<close> is that outcome.
\<close>

partial_function (option) set_alpha :: "Color \<Rightarrow> jsnum \<Rightarrow> Color option" where
  "set_alpha s v = set_alpha s v"

section \<open>Notions used in the statements\<close>

text \<open>
  A byte is an integer from 0 to 255. \<open>packInt\<close> is the integer that the expression
  \<open>r << 16 | g << 8 | b\<close> denotes once its operands are 32-bit integers.
\<close>

definition byte :: "int \<Rightarrow> bool" where
  "byte k = (0 \<le> k \<and> k \<le> 255)"

definition packInt :: "int \<Rightarrow> int \<Rightarrow> int \<Rightarrow> int" where
  "packInt r g b = (push_bit 16 r OR push_bit 8 g) OR b"

text \<open>
  \<open>hsl_view p\<close> is the HSL object a first read computes from the packed value
  \<open>p\<close>: the \<open>hsl\<close> getter applied to the three channels of the \<open>rgb\<close> view.
  An instance is coherent when each cache it holds is the view of the packed value
  recorded in that cache.
\<close>

definition hsl_view :: "jsnum \<Rightarrow> HSLObject" where
  "hsl_view p = (let v = rgb_of p in hsl_of p (red v) (green v) (blue v))"

definition coherent :: "Color \<Rightarrow> bool" where
  "coherent s =
     ((case lrgb s of None \<Rightarrow> True | Some v \<Rightarrow> v = rgb_of (rgb_color v))
      \<and> (case lhsl s of None \<Rightarrow> True | Some v \<Rightarrow> v = hsl_view (hsl_color v)))"

text \<open>
  The instances a program can hold: built by the constructor and then read and written
  through the accessors of the class, under any colour mode. The objects a getter
  returns are taken as values; a caller that writes into a returned object is outside
  this relation.
\<close>

inductive reachable :: "Color \<Rightarrow> bool" where
  new: "Color_new mode a b c d = Inr s \<Longrightarrow> reachable s"
| read_rgb: "reachable s \<Longrightarrow> reachable (snd (get_rgb s))"
| read_hsl: "reachable s \<Longrightarrow> reachable (snd (get_hsl s))"
| write_red: "reachable s \<Longrightarrow> reachable (set_red s v)"
| write_green: "reachable s \<Longrightarrow> reachable (set_green s v)"
| write_blue: "reachable s \<Longrightarrow> reachable (set_blue s v)"
| write_hue: "reachable s \<Longrightarrow> reachable (set_hue s v)"
| write_saturation: "reachable s \<Longrightarrow> reachable (set_saturation s v)"
| write_lightness: "reachable s \<Longrightarrow> reachable (set_lightness s v)"
| write_hex: "reachable s \<Longrightarrow> set_hex mode s h = Inr s' \<Longrightarrow> reachable s'"
| write_alpha: "reachable s \<Longrightarrow> set_alpha s v = Some s' \<Longrightarrow> reachable s'"

text \<open>
  A packed value is valid when it is a whole number from 0 to \<open>0xffffff\<close> and the
  three channels of its \<open>rgb\<close> view are whole numbers from 0 to 255. \<open>unitish\<close>
  holds of \<open>NaN\<close> and of the numbers that are within a millionth of the range from 0
  to 1. \<open>clampedByte x\<close> is the byte a channel value \<open>x\<close> is to be stored as:
  \<open>x\<close> limited to the range from 0 to 255, its fraction dropped, and 0 for \<open>NaN\<close>.
\<close>

definition is_packed24 :: "jsnum \<Rightarrow> bool" where
  "is_packed24 p = (case p of NaN \<Rightarrow> False
     | Num q \<Rightarrow> q = of_int \<lfloor>q\<rfloor> \<and> 0 \<le> q \<and> q < 16777216)"

definition is_byte :: "jsnum \<Rightarrow> bool" where
  "is_byte x = (case x of NaN \<Rightarrow> False
     | Num q \<Rightarrow> q = of_int \<lfloor>q\<rfloor> \<and> 0 \<le> q \<and> q \<le> 255)"

definition valid_packed :: "jsnum \<Rightarrow> bool" where
  "valid_packed p = (is_packed24 p \<and> is_byte (red (rgb_of p)) \<and> is_byte (green (rgb_of p))
     \<and> is_byte (blue (rgb_of p)))"

definition unitish :: "jsnum \<Rightarrow> bool" where
  "unitish x = (case x of NaN \<Rightarrow> True
     | Num q \<Rightarrow> - (1 / 1000000) \<le> q \<and> q \<le> 1 + 1 / 1000000)"

definition clampedByte :: "jsnum \<Rightarrow> int" where
  "clampedByte x = (case x of NaN \<Rightarrow> 0 | Num q \<Rightarrow> \<lfloor>max 0 (min q 255)\<rfloor>)"

section \<open>Rounding\<close>

lemma bits_nonneg: "0 \<le> bits n"
  by (induction n rule: bits.induct) (simp add: bits.simps)

lemma bits_pos: "0 < n \<Longrightarrow> 1 \<le> bits n"
  using bits_nonneg [of "n div 2"] by (simp add: bits.simps [of n])

lemma bits_bounds:
  "0 < n \<Longrightarrow> 2 ^ nat (bits n - 1) \<le> n \<and> n < 2 ^ nat (bits n)"
proof (induction n rule: bits.induct)
  case (1 n)
  show ?case
  proof (cases "n div 2 \<le> 0")
    case True
    then have "n = 1" using "1.prems" by linarith
    then show ?thesis by (simp add: bits.simps)
  next
    case False
    then have pos: "0 < n div 2" by simp
    have ih: "2 ^ nat (bits (n div 2) - 1) \<le> n div 2 \<and> n div 2 < 2 ^ nat (bits (n div 2))"
      using "1.IH" "1.prems" pos by simp
    have b: "bits n = 1 + bits (n div 2)"
      using "1.prems" by (simp add: bits.simps [of n])
    have p: "1 \<le> bits (n div 2)" by (rule bits_pos [OF pos])
    have e1: "nat (bits n - 1) = Suc (nat (bits (n div 2) - 1))"
      using p b by simp
    have e2: "nat (bits n) = Suc (nat (bits (n div 2)))"
      using p b by simp
    have "2 * (n div 2) \<le> n" "n < 2 * (n div 2) + 2" by linarith+
    then show ?thesis
      using ih unfolding e1 e2 by simp
  qed
qed

lemma ilog2_bounds:
  assumes "0 < x"
  shows "2 powi (ilog2 x) \<le> x \<and> x < 2 powi (ilog2 x + 1)"
proof (cases "1 \<le> x")
  case True
  let ?n = "\<lfloor>x\<rfloor>"
  have n: "0 < ?n" using True by simp
  note b = bits_bounds [OF n] bits_pos [OF n]
  have e: "ilog2 x = bits ?n - 1" using True by (simp add: ilog2_def)
  have lo: "(2::rat) powi (bits ?n - 1) = of_int (2 ^ nat (bits ?n - 1))"
    using b(2) by (simp add: power_int_def)
  have hi: "(2::rat) powi (bits ?n - 1 + 1) = of_int (2 ^ nat (bits ?n))"
    using b(2) by (simp add: power_int_def)
  have "(of_int (2 ^ nat (bits ?n - 1)) :: rat) \<le> of_int ?n"
    using b(1) by (simp only: of_int_le_iff)
  moreover have "of_int ?n \<le> x" by simp
  moreover have "x < of_int (?n + 1)" by linarith
  moreover have "(of_int (?n + 1) :: rat) \<le> of_int (2 ^ nat (bits ?n))"
    using b(1) by (simp only: of_int_le_iff) simp
  ultimately show ?thesis
    unfolding e lo hi by linarith
next
  case False
  let ?y = "1 / x"
  let ?n = "\<lceil>?y\<rceil> - 1"
  have y: "1 < ?y" using False assms by simp
  then have n: "0 < ?n" by linarith
  note b = bits_bounds [OF n] bits_pos [OF n]
  have e: "ilog2 x = - bits ?n" using False by (simp add: ilog2_def)
  have up: "?y \<le> of_int (2 ^ nat (bits ?n))"
  proof -
    have "?y \<le> of_int (?n + 1)" by (simp add: le_of_int_ceiling)
    also have "(of_int (?n + 1) :: rat) \<le> of_int (2 ^ nat (bits ?n))"
      using b(1) by (simp only: of_int_le_iff) simp
    finally show ?thesis .
  qed
  have dn: "of_int (2 ^ nat (bits ?n - 1)) < ?y"
  proof -
    have "(of_int (2 ^ nat (bits ?n - 1)) :: rat) \<le> of_int ?n"
      using b(1) by (simp only: of_int_le_iff)
    also have "of_int ?n < ?y" by linarith
    finally show ?thesis .
  qed
  have lo: "(2::rat) powi (- bits ?n) = 1 / of_int (2 ^ nat (bits ?n))"
    using b(2) by (simp add: power_int_def field_simps)
  have hi: "(2::rat) powi (- bits ?n + 1) = 1 / of_int (2 ^ nat (bits ?n - 1))"
  proof -
    have "(2::rat) powi (- (bits ?n - 1)) = 1 / 2 powi (bits ?n - 1)"
      by (rule power_int_minus_divide)
    moreover have "(2::rat) powi (bits ?n - 1) = 2 ^ nat (bits ?n - 1)"
      using b(2) by (simp add: power_int_nonneg_exp)
    moreover have "- bits ?n + 1 = - (bits ?n - 1)" by simp
    ultimately show ?thesis by simp
  qed
  have p1: "(0::rat) < of_int (2 ^ nat (bits ?n))" by simp
  have p2: "(0::rat) < of_int (2 ^ nat (bits ?n - 1))" by simp
  have "1 / of_int (2 ^ nat (bits ?n)) \<le> x"
    using up assms p1 by (simp add: field_simps)
  moreover have "x < 1 / of_int (2 ^ nat (bits ?n - 1))"
    using dn assms p2 by (simp add: field_simps)
  ultimately show ?thesis
    unfolding e lo hi by simp
qed

lemma pow2_less_exp:
  assumes "(2::rat) powi a < 2 powi b"
  shows "a < b"
proof (rule ccontr)
  assume "\<not> a < b"
  then have "(2::rat) powi b \<le> 2 powi a"
    by (intro power_int_increasing) simp_all
  then show False using assms by simp
qed

lemma roundHalfEven_error: "\<bar>of_int (roundHalfEven t) - t\<bar> \<le> 1 / 2"
proof -
  have "of_int \<lfloor>t\<rfloor> \<le> t" "t < of_int \<lfloor>t\<rfloor> + 1" by linarith+
  then show ?thesis
    by (auto simp add: roundHalfEven_def Let_def)
qed

lemma roundHalfEven_of_int [simp]: "roundHalfEven (of_int n) = n"
  by (simp add: roundHalfEven_def)

lemma ulp_pos: "0 < ulp x"
  by (simp add: ulp_def)

lemma rnd_error: "\<bar>rnd x - x\<bar> \<le> ulp x / 2"
proof (cases "x = 0")
  case True
  then show ?thesis using ulp_pos [of x] by (simp add: rnd_def)
next
  case False
  let ?n = "of_int (roundHalfEven (\<bar>x\<bar> / ulp x)) :: rat"
  have x: "x = sgn x * \<bar>x\<bar>" by (simp add: sgn_mult_abs)
  have "rnd x - x = sgn x * (?n * ulp x - \<bar>x\<bar>)"
    using False x by (simp add: rnd_def algebra_simps)
  then have "\<bar>rnd x - x\<bar> = \<bar>?n * ulp x - \<bar>x\<bar>\<bar>"
    using False by (simp add: abs_mult abs_sgn_eq)
  also have "?n * ulp x - \<bar>x\<bar> = (?n - \<bar>x\<bar> / ulp x) * ulp x"
    using ulp_pos [of x] by (simp add: field_simps)
  also have "\<bar>(?n - \<bar>x\<bar> / ulp x) * ulp x\<bar> = \<bar>?n - \<bar>x\<bar> / ulp x\<bar> * ulp x"
    using ulp_pos [of x] by (simp add: abs_mult)
  also have "\<dots> \<le> 1 / 2 * ulp x"
    using roundHalfEven_error [of "\<bar>x\<bar> / ulp x"] ulp_pos [of x]
    by (intro mult_right_mono) simp_all
  finally show ?thesis by simp
qed

lemma rnd_near:
  assumes "\<bar>x\<bar> < 2 powi k" "- 1021 \<le> k"
  shows "\<bar>rnd x - x\<bar> \<le> 2 powi (k - 54)"
proof (cases "x = 0")
  case True
  then show ?thesis by (simp add: rnd_def)
next
  case False
  then have "0 < \<bar>x\<bar>" by simp
  then have "2 powi (ilog2 \<bar>x\<bar>) \<le> \<bar>x\<bar>"
    using ilog2_bounds by blast
  then have "(2::rat) powi (ilog2 \<bar>x\<bar>) < 2 powi k"
    using assms(1) by simp
  then have "ilog2 \<bar>x\<bar> < k" by (rule pow2_less_exp)
  then have "max (ilog2 \<bar>x\<bar>) (- 1022) - 52 \<le> k - 53"
    using assms(2) by simp
  then have "ulp x \<le> 2 powi (k - 53)"
    unfolding ulp_def by (intro power_int_increasing) simp_all
  moreover have "(2::rat) powi (k - 53) = 2 * 2 powi (k - 54)"
    using power_int_add_1 [of "2::rat" "k - 54"] by (simp add: algebra_simps)
  ultimately show ?thesis
    using rnd_error [of x] by simp
qed

lemma rnd_exact:
  assumes "\<bar>m\<bar> < 9007199254740992" "j \<le> 1022"
  shows "rnd (of_int m / 2 ^ j) = of_int m / 2 ^ j"
proof (cases "m = 0")
  case True
  then show ?thesis by (simp add: rnd_def)
next
  case False
  let ?x = "of_int m / 2 ^ j :: rat"
  let ?E = "ilog2 \<bar>?x\<bar>"
  have ax: "\<bar>?x\<bar> = of_int \<bar>m\<bar> / 2 ^ j" by simp
  have pos: "0 < \<bar>?x\<bar>" using False by simp
  note E = ilog2_bounds [OF pos]
  have "1 \<le> \<bar>m\<bar>" using False by simp
  then have "(of_int 1 :: rat) \<le> of_int \<bar>m\<bar>"
    by (simp only: of_int_le_iff)
  then have "1 / 2 ^ j \<le> \<bar>?x\<bar>"
    unfolding ax by (simp add: field_simps)
  moreover have "(2::rat) powi (- int j) = 1 / 2 ^ j"
    by (simp add: power_int_minus_divide)
  ultimately have "(2::rat) powi (- int j) < 2 powi (?E + 1)"
    using E by linarith
  then have lo: "- int j \<le> ?E"
    using pow2_less_exp by fastforce
  have "(of_int \<bar>m\<bar> :: rat) < of_int 9007199254740992"
    using assms(1) by (simp only: of_int_less_iff)
  then have "\<bar>?x\<bar> < 2 ^ 53 / 2 ^ j"
    unfolding ax by (simp add: field_simps)
  moreover have "(2::rat) powi (53 - int j) = 2 ^ 53 / 2 ^ j"
    by (simp add: power_int_diff)
  ultimately have "(2::rat) powi ?E < 2 powi (53 - int j)"
    using E by linarith
  then have hi: "?E + int j \<le> 52"
    using pow2_less_exp by fastforce
  have "max ?E (- 1022) = ?E"
    using lo assms(2) by linarith
  then have u: "ulp ?x = 2 powi (?E - 52)"
    by (simp only: ulp_def)
  define d where "d = nat (52 - ?E - int j)"
  have "(2::rat) powi (?E - 52) = 2 powi (- int j) / 2 powi (int d)"
    using hi unfolding d_def by (simp add: power_int_diff [symmetric])
  then have u2: "ulp ?x = 1 / (2 ^ j * 2 ^ d)"
    unfolding u by (simp add: power_int_minus_divide)
  have q: "\<bar>?x\<bar> / ulp ?x = of_int (\<bar>m\<bar> * 2 ^ d)"
    unfolding ax u2 by simp
  have "rnd ?x = sgn ?x * (\<bar>?x\<bar> / ulp ?x) * ulp ?x"
    using False unfolding rnd_def q roundHalfEven_of_int by simp
  also have "\<dots> = sgn ?x * \<bar>?x\<bar>"
    using ulp_pos [of ?x] by simp
  also have "\<dots> = ?x" by (simp only: sgn_mult_abs)
  finally show ?thesis .
qed

lemma rnd_of_int: "\<bar>m\<bar> < 9007199254740992 \<Longrightarrow> rnd (of_int m) = of_int m"
  using rnd_exact [of m 0] by simp

lemma rnd_of_nat: "n < 9007199254740992 \<Longrightarrow> rnd (of_nat n) = of_nat n"
  using rnd_of_int [of "int n"] by simp

lemma rnd_numeral [simp]:
  "(numeral n :: int) < 9007199254740992 \<Longrightarrow> rnd (numeral n) = numeral n"
  "(numeral n :: int) < 9007199254740992 \<Longrightarrow> rnd (- numeral n) = - numeral n"
  using rnd_of_int [of "numeral n"] rnd_of_int [of "- numeral n"] by simp_all

lemma rnd_small [simp]:
  "rnd 0 = 0" "rnd 1 = 1" "rnd (- 1) = - 1" "rnd (1 / 2) = 1 / 2"
  using rnd_of_int [of 0] rnd_of_int [of 1] rnd_of_int [of "- 1"] rnd_exact [of 1 1]
  by simp_all

lemma rnd_close:
  assumes "\<bar>x\<bar> < 1024"
  shows "\<bar>rnd x - x\<bar> \<le> 1 / 17592186044416"
proof -
  have "\<bar>x\<bar> < 2 powi 10" using assms by simp
  then have "\<bar>rnd x - x\<bar> \<le> 2 powi (10 - 54)"
    by (rule rnd_near) simp
  then show ?thesis by (simp add: power_int_minus_divide)
qed

lemma rnd_nonneg:
  assumes "0 \<le> x"
  shows "0 \<le> rnd x"
proof -
  have "0 \<le> \<bar>x\<bar> / ulp x" using ulp_pos [of x] by simp
  then have "0 \<le> roundHalfEven (\<bar>x\<bar> / ulp x)"
    by (auto simp add: roundHalfEven_def Let_def)
  then show ?thesis
    using assms ulp_pos [of x] by (simp add: rnd_def)
qed

lemma prod_slack:
  fixes a b d :: rat
  assumes "- d \<le> a" "a \<le> 2" "- d \<le> b" "b \<le> 1 + d" "0 \<le> d" "d \<le> 1"
  shows "- (4 * d) \<le> a * b \<and> a * b \<le> max a 0 + 4 * d"
proof -
  consider (pp) "0 \<le> a" "0 \<le> b" | (pn) "0 \<le> a" "b < 0" | (np) "a < 0" "0 \<le> b"
    | (nn) "a < 0" "b < 0"
    by linarith
  then show ?thesis
  proof cases
    case pp
    have "0 \<le> a * b" using pp by simp
    moreover have "a * b \<le> a * (1 + d)"
      using pp(1) assms(4) by (rule mult_left_mono[rotated])
    moreover have "a * d \<le> 2 * d"
      using assms(2,5) by (rule mult_right_mono)
    ultimately show ?thesis using assms(5) pp(1) by (simp add: algebra_simps)
  next
    case pn
    have "a * b \<le> 0" using pn by (simp add: mult_nonneg_nonpos)
    moreover have "a * (- d) \<le> a * b"
      using pn(1) assms(3) by (intro mult_left_mono) simp_all
    moreover have "a * d \<le> 2 * d"
      using assms(2,5) by (rule mult_right_mono)
    ultimately show ?thesis using assms(5) pn(1) by (simp add: algebra_simps)
  next
    case np
    have "a * b \<le> 0" using np by (simp add: mult_nonpos_nonneg)
    moreover have "(- d) * b \<le> a * b"
      using np(2) assms(1) by (intro mult_right_mono) simp_all
    moreover have "d * b \<le> d * (1 + d)"
      using assms(4,5) by (intro mult_left_mono) simp_all
    moreover have "d * d \<le> d * 1"
      using assms(5,6) by (intro mult_left_mono) simp_all
    ultimately show ?thesis using assms(5) np(1) by (simp add: algebra_simps)
  next
    case nn
    have "0 \<le> a * b" using nn by (simp add: mult_nonpos_nonpos)
    moreover have "(- a) * (- b) \<le> d * d"
      using nn assms(1,3) by (intro mult_mono) simp_all
    moreover have "d * d \<le> d * 1"
      using assms(5,6) by (intro mult_left_mono) simp_all
    ultimately show ?thesis using assms(5) nn(1) by simp
  qed
qed

text \<open>Rules that let the simplifier compute \<open>rnd\<close> of a numeral fraction.\<close>

lemma bits_numeral [simp]:
  "bits 0 = 0" "bits 1 = 1" "bits (numeral n) = 1 + bits (numeral n div 2)"
  "bits (- numeral n) = 0"
  by (simp_all add: bits.simps [of 0] bits.simps [of 1] bits.simps [of "numeral n"]
      bits.simps [of "- numeral n"])

lemma ceiling_rat_numeral [simp]:
  "\<lceil>(numeral a :: rat) / numeral b\<rceil> = - (- numeral a div numeral b)"
  "\<lceil>(1 :: rat) / numeral b\<rceil> = - (- 1 div numeral b)"
  using ceiling_divide_eq_div [of "numeral a" "numeral b", where ?'a = rat]
    ceiling_divide_eq_div [of 1 "numeral b", where ?'a = rat]
  by simp_all

lemmas rnd_defs = rnd_def ulp_def ilog2_def roundHalfEven_def Let_def

section \<open>Unfolding the model\<close>

lemmas number_defs = clamp_def jshl_def jsar_def jor_def jand_def trunc_def jne_def

lemmas resolver_defs = Color_new_def parseParameters_def resolveNumeric_def
  getColorValueFromHSL_def getColorValueFromRGB_def hslSextant_def stripHash_def hexParts_def
  parseInt0x_def hexDigitVal_def numToString_def Let_def

lemmas getter_defs = get_color_def get_alpha_def rgb_of_def get_rgb_def get_red_def
  get_green_def get_blue_def hsl_of_def get_hsl_def get_hue_def get_saturation_def
  get_lightness_def

lemma floor_rat_numeral [simp]:
  "\<lfloor>(numeral a :: rat) / numeral b\<rfloor> = numeral a div numeral b"
  "\<lfloor>(1 :: rat) / numeral b\<rfloor> = 1 div numeral b"
  using floor_divide_of_int_eq [of "numeral a" "numeral b", where ?'a = rat]
    floor_divide_of_int_eq [of 1 "numeral b", where ?'a = rat]
  by simp_all

section \<open>The hue sextants\<close>

text \<open>
  Every branch of the chain in \<open>getColorValueFromHSL\<close> tests \<open>lo <= h && h > hi\<close>.
  The first branch therefore takes every hue above 60, and no later branch is ever
  reached: a hue of at most 60 fails all of them.
\<close>

lemma hslSextant_collapse:
  "hslSextant (Num h) c x = (if 60 < h then (c, x, Num 0) else (Num 0, Num 0, Num 0))"
  by (simp add: hslSextant_def)

lemma hslSextant_NaN: "hslSextant NaN c x = (Num 0, Num 0, Num 0)"
  by (simp add: hslSextant_def)

text \<open>
  C1. Under colour mode HSL, \<open>new Color(120, 100, 50)\<close> stores the packed value
  \<open>0xff0000\<close>, and its \<open>rgb\<close> view is red 255, green 0, blue 0: the hue 120 is
  handled by the branch of the first sextant, so the result is pure red and not the pure
  green of the standard conversion.
\<close>

theorem hsl_120_100_50_is_red:
  "Color_new HSL (Number (Num 120)) (Some (Num 100)) (Some (Num 50)) None
     = Inr \<lparr>col_c = Num 16711680, col_a = Num 255, lhsl = None, lrgb = None\<rparr>
   \<and> fst (get_rgb \<lparr>col_c = Num 16711680, col_a = Num 255, lhsl = None, lrgb = None\<rparr>)
     = \<lparr>rgb_color = Num 16711680, red = Num 255, green = Num 0, blue = Num 0\<rparr>"
  by (simp add: resolver_defs number_defs getter_defs)

section \<open>Short hexadecimal strings with an alpha digit\<close>

text \<open>
  C2. Parsing \<open>"f08a"\<close> with the alpha parameter 5 gives the packed value
  \<open>0xff0088\<close>, each of the first three digits doubled, and the alpha \<open>0x55 = 85\<close>:
  the text of the alpha byte is the decimal text of the parameter written twice and read
  as hexadecimal, so the resulting alpha is not the parameter 5.
\<close>

theorem short_hex_f08a_alpha_5:
  "parseParameters RGB (Str ''f08a'') None None (Some (Num 5))
     = Inr \<lparr>color = Num 16711816, alpha = Num 85\<rparr>"
  by (simp add: resolver_defs digits10.simps)

section \<open>The alpha setter\<close>

lemma set_alpha_diverges: "set_alpha s v = None"
proof (rule ccontr)
  assume "set_alpha s v \<noteq> None"
  then obtain s' where "set_alpha s v = Some s'"
    by auto
  then show False
    by (auto elim: set_alpha.raw_induct [rotated])
qed

text \<open>
  C3. A call of the \<open>alpha\<close> setter never returns normally, whatever the instance and
  the value, so also for the value already stored: the setter assigns to the property it
  implements and so calls itself without end.
\<close>

theorem set_alpha_never_returns:
  "set_alpha s v = None \<and> set_alpha s (get_alpha s) = None"
  by (simp add: set_alpha_diverges)

section \<open>Bare numeric arguments\<close>

text \<open>
  C4. The resolver tests a missing argument with \<open>!b\<close>, which is also true of a
  supplied 0. Under colour mode RGB, \<open>new Color(255, 0, 0)\<close> therefore replaces the
  supplied green 0 and blue 0 by the red value and stores \<open>0xffffff\<close>, white; and a
  supplied alpha 0 becomes 255.
\<close>

theorem rgb_255_0_0_is_white:
  "Color_new RGB (Number (Num 255)) (Some (Num 0)) (Some (Num 0)) None
     = Inr \<lparr>col_c = Num 16777215, col_a = Num 255, lhsl = None, lrgb = None\<rparr>
   \<and> Color_new RGB (Number (Num 10)) (Some (Num 20)) (Some (Num 30)) (Some (Num 0))
     = Inr \<lparr>col_c = Num 660510, col_a = Num 255, lhsl = None, lrgb = None\<rparr>"
  by (simp add: resolver_defs number_defs)

text \<open>
  What does hold: an argument that is missing takes its default, and an argument that is
  supplied and is neither 0 nor \<open>NaN\<close> is passed on as it is.
\<close>

lemma resolveNumeric_defaults:
  "resolveNumeric RGB x None None None = getColorValueFromRGB x x x (Num 255)"
  "resolveNumeric HSL x None None None
     = getColorValueFromHSL x (Num 50) (Num 50) (Some (Num 255))"
  by (simp_all add: resolveNumeric_def)

lemma resolveNumeric_supplied:
  assumes "\<not> falsy (Some y)" "\<not> falsy (Some z)" "\<not> falsy (Some w)"
  shows "resolveNumeric RGB x (Some y) (Some z) (Some w) = getColorValueFromRGB x y z w"
    and "resolveNumeric HSL x (Some y) (Some z) (Some w) = getColorValueFromHSL x y z (Some w)"
  using assms by (simp_all add: resolveNumeric_def)

section \<open>The error of the resolver\<close>

lemma parseParameters_error_iff:
  "(parseParameters mode a b c d = Inl InvalidFormat)
     = (\<exists>s. a = Str s \<and> length (stripHash s) \<notin> {3, 4, 6, 8})"
  by (cases a) (auto simp: parseParameters_def Let_def split: prod.splits)

lemma Color_new_error_iff:
  "(Color_new mode a b c d = Inl InvalidFormat)
     = (parseParameters mode a b c d = Inl InvalidFormat)"
  by (cases "parseParameters mode a b c d") (auto simp: Color_new_def split: sum.splits)

text \<open>
  C5. The resolver fails, with the error \<open>InvalidFormat\<close>, exactly on a string whose
  length after the removal of one leading \<open>#\<close> is not 3, 4, 6 or 8; the constructor
  fails on exactly those inputs and then builds no instance, and on every other input
  it returns an instance.
\<close>

theorem invalid_format_exactly_on_bad_length:
  "((parseParameters mode a b c d = Inl InvalidFormat)
       = (\<exists>s. a = Str s \<and> length (stripHash s) \<notin> {3, 4, 6, 8}))
   \<and> ((Color_new mode a b c d = Inl InvalidFormat)
       = (\<exists>s. a = Str s \<and> length (stripHash s) \<notin> {3, 4, 6, 8}))
   \<and> ((\<exists>col. Color_new mode a b c d = Inr col)
       = (\<not> (\<exists>s. a = Str s \<and> length (stripHash s) \<notin> {3, 4, 6, 8})))"
proof -
  have only: "\<And>e. e = InvalidFormat"
    by (metis error.exhaust)
  have "(\<exists>col. Color_new mode a b c d = Inr col)
          = (Color_new mode a b c d \<noteq> Inl InvalidFormat)"
    by (cases "Color_new mode a b c d") (auto simp: only)
  then show ?thesis
    by (simp add: parseParameters_error_iff Color_new_error_iff)
qed

theorem invalid_format_exactly_on_bad_length_witness:
  "Color_new RGB (Str ''#1234567'') None None None = Inl InvalidFormat
   \<and> length (stripHash ''#1234567'') = 7
   \<and> (\<exists>col. Color_new RGB (Str ''#123456'') None None None = Inr col)"
  using invalid_format_exactly_on_bad_length [of RGB "Str ''#1234567''" None None None]
    invalid_format_exactly_on_bad_length [of RGB "Str ''#123456''" None None None]
  by (simp add: stripHash_def)

section \<open>Packing three bytes and reading them back\<close>

lemma trunc_of_int [simp]: "trunc (of_int k) = k"
  by (simp add: trunc_def)

lemma int32_id: "0 \<le> (k::int) \<Longrightarrow> k < 2147483648 \<Longrightarrow> signed_take_bit 31 k = k"
  by (simp add: signed_take_bit_int_eq_self)

lemma toInt32_of_int: "0 \<le> k \<Longrightarrow> k < 2147483648 \<Longrightarrow> toInt32 (Num (of_int k)) = k"
  by (simp add: int32_id)

lemma byte_take: "byte k \<Longrightarrow> take_bit 8 k = k"
  by (simp add: byte_def take_bit_int_eq_self)

lemma packInt_take24: "byte r \<Longrightarrow> byte g \<Longrightarrow> byte b \<Longrightarrow> take_bit 24 (packInt r g b) = packInt r g b"
proof -
  have "take_bit 24 ((push_bit 16 (take_bit 8 r) OR push_bit 8 (take_bit 8 g)) OR take_bit 8 b)
      = (push_bit 16 (take_bit 8 r) OR push_bit 8 (take_bit 8 g)) OR take_bit 8 b"
    by (rule bit_eqI) (auto simp add: bit_simps)
  then show "byte r \<Longrightarrow> byte g \<Longrightarrow> byte b \<Longrightarrow> ?thesis"
    by (simp add: packInt_def byte_take)
qed

lemma packInt_range:
  assumes "byte r" "byte g" "byte b"
  shows "0 \<le> packInt r g b \<and> packInt r g b < 16777216"
  using take_bit_int_less_exp [of 24 "packInt r g b"] take_bit_nonnegative [of 24 "packInt r g b"]
  by (simp add: packInt_take24 [OF assms])

lemma shl16_byte: "byte r \<Longrightarrow> 0 \<le> push_bit 16 r \<and> push_bit 16 r < 16777216"
  by (simp add: byte_def push_bit_eq_mult)

lemma shl8_byte: "byte r \<Longrightarrow> 0 \<le> push_bit 8 r \<and> push_bit 8 r < 65536"
  by (simp add: byte_def push_bit_eq_mult)

lemma or_range24:
  fixes x y :: int
  assumes "0 \<le> x" "x < 16777216" "0 \<le> y" "y < 16777216"
  shows "0 \<le> x OR y \<and> x OR y < 16777216"
  using OR_upper [of x 24 y] assms by simp

lemma pack_bytes:
  assumes "byte (toInt32 x)" "byte (toInt32 y)" "byte (toInt32 z)"
  shows "jor (jor (jshl x 16) (jshl y 8)) z
           = Num (of_int (packInt (toInt32 x) (toInt32 y) (toInt32 z)))"
proof -
  have x: "toInt32 (jshl x 16) = push_bit 16 (toInt32 x)"
    using shl16_byte [OF assms(1)] by (simp add: jshl_def int32_id)
  have y: "toInt32 (jshl y 8) = push_bit 8 (toInt32 y)"
    using shl8_byte [OF assms(2)] by (simp add: jshl_def int32_id)
  have "0 \<le> push_bit 16 (toInt32 x) OR push_bit 8 (toInt32 y) \<and> push_bit 16 (toInt32 x) OR push_bit 8 (toInt32 y) < 16777216"
    using shl16_byte [OF assms(1)] shl8_byte [OF assms(2)] by (intro or_range24) simp_all
  then have xy: "toInt32 (jor (jshl x 16) (jshl y 8)) = push_bit 16 (toInt32 x) OR push_bit 8 (toInt32 y)"
    by (simp add: jor_def x y int32_id)
  show ?thesis
    by (simp add: jor_def [of "jor (jshl x 16) (jshl y 8)"] xy packInt_def)
qed

lemma unpack_packInt:
  assumes "byte r" "byte g" "byte b"
  shows "drop_bit 16 (packInt r g b AND 16711680) = r"
    and "drop_bit 8 (packInt r g b AND 65280) = g"
    and "packInt r g b AND 255 = b"
proof -
  have m: "(16711680::int) = push_bit 16 (mask 8)" "(65280::int) = push_bit 8 (mask 8)"
    "(255::int) = mask 8"
    by (simp_all add: mask_eq_exp_minus_1)
  have "drop_bit 16 (((push_bit 16 (take_bit 8 r) OR push_bit 8 (take_bit 8 g)) OR take_bit 8 b)
          AND push_bit 16 (mask 8)) = take_bit 8 r"
    by (rule bit_eqI) (auto simp add: bit_simps)
  then show "drop_bit 16 (packInt r g b AND 16711680) = r"
    using assms by (simp add: packInt_def byte_take m)
  have "drop_bit 8 (((push_bit 16 (take_bit 8 r) OR push_bit 8 (take_bit 8 g)) OR take_bit 8 b)
          AND push_bit 8 (mask 8)) = take_bit 8 g"
    by (rule bit_eqI) (auto simp add: bit_simps)
  then show "drop_bit 8 (packInt r g b AND 65280) = g"
    using assms by (simp add: packInt_def byte_take m)
  have "((push_bit 16 (take_bit 8 r) OR push_bit 8 (take_bit 8 g)) OR take_bit 8 b) AND mask 8
          = take_bit 8 b"
    by (rule bit_eqI) (auto simp add: bit_simps)
  then show "packInt r g b AND 255 = b"
    using assms by (simp add: packInt_def byte_take m)
qed

lemma toInt32_masks:
  "toInt32 (Num 16711680) = 16711680" "toInt32 (Num 65280) = 65280" "toInt32 (Num 255) = 255"
  by (simp_all add: trunc_def)

lemma and_mask_range:
  fixes k m :: int
  assumes "0 \<le> m" "m < 2147483648"
  shows "0 \<le> k AND m \<and> k AND m < 2147483648"
  using AND_upper2 [of m k] assms by simp

lemma rgb_of_packInt:
  assumes "byte r" "byte g" "byte b"
  shows "rgb_of (Num (of_int (packInt r g b)))
    = \<lparr>rgb_color = Num (of_int (packInt r g b)), red = Num (of_int r), green = Num (of_int g), blue = Num (of_int b)\<rparr>"
proof -
  let ?p = "packInt r g b"
  have p: "toInt32 (Num (of_int ?p)) = ?p"
    using packInt_range [OF assms] by (simp add: int32_id)
  have m: "toInt32 (Num (of_int (?p AND 16711680))) = ?p AND 16711680"
    "toInt32 (Num (of_int (?p AND 65280))) = ?p AND 65280"
    "toInt32 (Num (of_int (?p AND 255))) = ?p AND 255"
    using and_mask_range [of 16711680 ?p] and_mask_range [of 65280 ?p]
      and_mask_range [of 255 ?p]
    by (simp_all add: toInt32_of_int del: toInt32.simps)
  show ?thesis
    by (simp add: rgb_of_def jsar_def jand_def p toInt32_masks m unpack_packInt [OF assms]
        del: toInt32.simps drop_bit_and)
qed

text \<open>
  C6. For whole numbers \<open>r\<close>, \<open>g\<close>, \<open>b\<close>, \<open>a\<close> from 0 to 255,
  \<open>getColorValueFromRGB\<close> followed by the \<open>rgb\<close> view of an instance holding the
  result (and a read of its alpha) gives back \<open>r\<close>, \<open>g\<close>, \<open>b\<close> and \<open>a\<close>.
\<close>

theorem rgb_round_trip:
  assumes "0 \<le> r" "r \<le> 255" "0 \<le> g" "g \<le> 255" "0 \<le> b" "b \<le> 255" "0 \<le> a" "a \<le> 255"
  shows "let co = getColorValueFromRGB (Num (of_int r)) (Num (of_int g)) (Num (of_int b))
                    (Num (of_int a));
             s = \<lparr>col_c = color co, col_a = alpha co, lhsl = None, lrgb = None\<rparr>;
             v = fst (get_rgb s)
         in red v = Num (of_int r) \<and> green v = Num (of_int g) \<and> blue v = Num (of_int b)
            \<and> get_alpha s = Num (of_int a) \<and> rgb_of (color co) = v"
proof -
  have bytes: "byte (toInt32 (Num (of_int r)))" "byte (toInt32 (Num (of_int g)))"
    "byte (toInt32 (Num (of_int b)))"
    using assms by (simp_all add: byte_def int32_id)
  have ids: "toInt32 (Num (of_int r)) = r" "toInt32 (Num (of_int g)) = g"
    "toInt32 (Num (of_int b)) = b"
    using assms by (simp_all add: int32_id)
  have cl: "clamp (Num (of_int r)) (Num 255) (Num 0) = Num (of_int r)"
    "clamp (Num (of_int g)) (Num 255) (Num 0) = Num (of_int g)"
    "clamp (Num (of_int b)) (Num 255) (Num 0) = Num (of_int b)"
    "clamp (Num (of_int a)) (Num 255) (Num 0) = Num (of_int a)"
    using assms by (simp_all add: clamp_def)
  have co: "getColorValueFromRGB (Num (of_int r)) (Num (of_int g)) (Num (of_int b))
              (Num (of_int a))
            = \<lparr>color = Num (of_int (packInt r g b)), alpha = Num (of_int a)\<rparr>"
    using pack_bytes [OF bytes]
    by (simp add: getColorValueFromRGB_def cl ids del: toInt32.simps)
  have rgb: "byte r" "byte g" "byte b"
    using assms by (simp_all add: byte_def)
  show ?thesis
    by (simp add: co Let_def get_rgb_def get_color_def get_alpha_def rgb_of_packInt [OF rgb])
qed

theorem rgb_round_trip_witness:
  "(let co = getColorValueFromRGB (Num 51) (Num 102) (Num 153) (Num 255);
        s = \<lparr>col_c = color co, col_a = alpha co, lhsl = None, lrgb = None\<rparr>;
        v = fst (get_rgb s)
    in red v = Num 51 \<and> green v = Num 102 \<and> blue v = Num 153
       \<and> get_alpha s = Num 255 \<and> rgb_of (color co) = v)"
  using rgb_round_trip [of 51 102 153 255] by simp

section \<open>Hexadecimal strings\<close>

lemma packInt_sum:
  assumes "byte r" "byte g" "byte b"
  shows "packInt r g b = r * 65536 + g * 256 + b"
proof -
  have "push_bit 16 (take_bit 8 r) AND push_bit 8 (take_bit 8 g) = 0"
    by (rule bit_eqI) (auto simp add: bit_simps)
  then have 1: "push_bit 16 (take_bit 8 r) OR push_bit 8 (take_bit 8 g)
                 = push_bit 16 (take_bit 8 r) + push_bit 8 (take_bit 8 g)"
    by (simp add: disjunctive_add_eq_or)
  have "(push_bit 16 (take_bit 8 r) OR push_bit 8 (take_bit 8 g)) AND take_bit 8 b = 0"
    by (rule bit_eqI) (auto simp add: bit_simps)
  then have "(push_bit 16 (take_bit 8 r) OR push_bit 8 (take_bit 8 g)) OR take_bit 8 b
               = push_bit 16 (take_bit 8 r) + push_bit 8 (take_bit 8 g) + take_bit 8 b"
    by (simp add: disjunctive_add_eq_or flip: 1)
  then show ?thesis
    using assms by (simp add: packInt_def byte_take push_bit_eq_mult)
qed

lemma hexDigitVal_less: "hexDigitVal ch = Some v \<Longrightarrow> v < 16"
  by (auto simp: hexDigitVal_def Let_def split: if_splits)

lemma hexDigitVal_hash: "hexDigitVal ch = Some v \<Longrightarrow> ch \<noteq> CHR ''#''"
  by (auto simp: hexDigitVal_def Let_def split: if_splits)

lemma parseInt0x_exact:
  assumes "hexPrefix s = v # vs" "foldl (\<lambda>acc d. 16 * acc + d) 0 (v # vs) = n"
    "n < 9007199254740992"
  shows "parseInt0x s = Num (of_nat n)"
  using assms(2) rnd_of_nat [OF assms(3)] by (simp add: parseInt0x_def assms(1))

lemma parseInt0x_ff: "parseInt0x ''ff'' = Num 255"
  by (simp add: parseInt0x_def hexDigitVal_def)

lemma parseInt0x_six:
  assumes "hexDigitVal c1 = Some v1" "hexDigitVal c2 = Some v2" "hexDigitVal c3 = Some v3"
    "hexDigitVal c4 = Some v4" "hexDigitVal c5 = Some v5" "hexDigitVal c6 = Some v6"
  shows "parseInt0x [c1, c2, c3, c4, c5, c6]
           = Num (of_nat ((16 * v1 + v2) * 65536 + (16 * v3 + v4) * 256 + (16 * v5 + v6)))"
proof (rule parseInt0x_exact)
  show "hexPrefix [c1, c2, c3, c4, c5, c6] = v1 # [v2, v3, v4, v5, v6]"
    using assms by simp
  show "foldl (\<lambda>acc d. 16 * acc + d) 0 (v1 # [v2, v3, v4, v5, v6])
          = (16 * v1 + v2) * 65536 + (16 * v3 + v4) * 256 + (16 * v5 + v6)"
    by simp
  show "(16 * v1 + v2) * 65536 + (16 * v3 + v4) * 256 + (16 * v5 + v6) < 9007199254740992"
    using assms [THEN hexDigitVal_less] by simp
qed

lemma parseInt0x_two:
  assumes "hexDigitVal c1 = Some v1" "hexDigitVal c2 = Some v2"
  shows "parseInt0x [c1, c2] = Num (of_nat (16 * v1 + v2))"
proof (rule parseInt0x_exact)
  show "hexPrefix [c1, c2] = v1 # [v2]"
    using assms by simp
  show "foldl (\<lambda>acc d. 16 * acc + d) 0 (v1 # [v2]) = 16 * v1 + v2"
    by simp
  show "16 * v1 + v2 < 9007199254740992"
    using assms [THEN hexDigitVal_less] by simp
qed

lemma parse3:
  assumes "hexDigitVal c1 = Some v1" "hexDigitVal c2 = Some v2" "hexDigitVal c3 = Some v3"
  shows "parseParameters mode (Str [c1, c2, c3]) None None d
            = Inr \<lparr>color = Num (of_nat ((16 * v1 + v1) * 65536 + (16 * v2 + v2) * 256
                                + (16 * v3 + v3))), alpha = Num 255\<rparr>"
   and "parseParameters mode (Str [CHR ''#'', c1, c2, c3]) None None d
            = Inr \<lparr>color = Num (of_nat ((16 * v1 + v1) * 65536 + (16 * v2 + v2) * 256
                                + (16 * v3 + v3))), alpha = Num 255\<rparr>"
  using hexDigitVal_hash [OF assms(1)]
    parseInt0x_six [OF assms(1) assms(1) assms(2) assms(2) assms(3) assms(3)]
  by (simp_all add: parseParameters_def stripHash_def hexParts_def Let_def parseInt0x_ff)

lemma parse6:
  assumes "hexDigitVal c1 = Some v1" "hexDigitVal c2 = Some v2" "hexDigitVal c3 = Some v3"
    "hexDigitVal c4 = Some v4" "hexDigitVal c5 = Some v5" "hexDigitVal c6 = Some v6"
  shows "parseParameters mode (Str [c1, c2, c3, c4, c5, c6]) None None d
            = Inr \<lparr>color = Num (of_nat ((16 * v1 + v2) * 65536 + (16 * v3 + v4) * 256
                                + (16 * v5 + v6))), alpha = Num 255\<rparr>"
   and "parseParameters mode (Str [CHR ''#'', c1, c2, c3, c4, c5, c6]) None None d
            = Inr \<lparr>color = Num (of_nat ((16 * v1 + v2) * 65536 + (16 * v3 + v4) * 256
                                + (16 * v5 + v6))), alpha = Num 255\<rparr>"
  using hexDigitVal_hash [OF assms(1)] parseInt0x_six [OF assms]
  by (simp_all add: parseParameters_def stripHash_def hexParts_def Let_def parseInt0x_ff)

lemma parse8:
  assumes "hexDigitVal c1 = Some v1" "hexDigitVal c2 = Some v2" "hexDigitVal c3 = Some v3"
    "hexDigitVal c4 = Some v4" "hexDigitVal c5 = Some v5" "hexDigitVal c6 = Some v6"
    "hexDigitVal c7 = Some v7" "hexDigitVal c8 = Some v8"
  shows "parseParameters mode (Str [c1, c2, c3, c4, c5, c6, c7, c8]) None None d
            = Inr \<lparr>color = Num (of_nat ((16 * v1 + v2) * 65536 + (16 * v3 + v4) * 256
                                + (16 * v5 + v6))), alpha = Num (of_nat (16 * v7 + v8))\<rparr>"
   and "parseParameters mode (Str [CHR ''#'', c1, c2, c3, c4, c5, c6, c7, c8]) None None d
            = Inr \<lparr>color = Num (of_nat ((16 * v1 + v2) * 65536 + (16 * v3 + v4) * 256
                                + (16 * v5 + v6))), alpha = Num (of_nat (16 * v7 + v8))\<rparr>"
  using hexDigitVal_hash [OF assms(1)] parseInt0x_six [OF assms(1-6)]
    parseInt0x_two [OF assms(7,8)]
  by (simp_all add: parseParameters_def stripHash_def hexParts_def Let_def)

lemma rgb_of_digits:
  assumes "r < 256" "g < 256" "b < 256"
  shows "rgb_of (Num (of_nat (r * 65536 + g * 256 + b)))
           = \<lparr>rgb_color = Num (of_nat (r * 65536 + g * 256 + b)),
              red = Num (of_nat r), green = Num (of_nat g), blue = Num (of_nat b)\<rparr>"
proof -
  have b: "byte (int r)" "byte (int g)" "byte (int b)"
    using assms by (simp_all add: byte_def)
  have "(of_nat (r * 65536 + g * 256 + b) :: rat) = of_int (packInt (int r) (int g) (int b))"
    by (simp add: packInt_sum [OF b])
  then show ?thesis
    using rgb_of_packInt [OF b] by simp
qed

text \<open>
  C7. For hexadecimal digits \<open>c1\<close> to \<open>c8\<close> with the values \<open>v1\<close> to \<open>v8\<close>,
  with or without a leading \<open>#\<close>, and whatever the colour mode and the alpha
  parameter: the 3-digit string gives the three bytes \<open>v1 v1\<close>, \<open>v2 v2\<close>,
  \<open>v3 v3\<close> and alpha 255; the 6-digit string gives the bytes \<open>v1 v2\<close>, \<open>v3 v4\<close>,
  \<open>v5 v6\<close>, which the \<open>rgb\<close> view reads back, and alpha 255; the 8-digit string
  gives the same packed value from its first six digits and the alpha byte \<open>v7 v8\<close>.
\<close>

theorem hex_string_forms:
  assumes "hexDigitVal c1 = Some v1" "hexDigitVal c2 = Some v2" "hexDigitVal c3 = Some v3"
    "hexDigitVal c4 = Some v4" "hexDigitVal c5 = Some v5" "hexDigitVal c6 = Some v6"
    "hexDigitVal c7 = Some v7" "hexDigitVal c8 = Some v8"
  shows "parseParameters mode (Str [c1, c2, c3]) None None d
           = Inr \<lparr>color = Num (of_nat ((16 * v1 + v1) * 65536 + (16 * v2 + v2) * 256
                               + (16 * v3 + v3))), alpha = Num 255\<rparr>
       \<and> parseParameters mode (Str [CHR ''#'', c1, c2, c3]) None None d
           = parseParameters mode (Str [c1, c2, c3]) None None d
       \<and> parseParameters mode (Str [c1, c2, c3, c4, c5, c6]) None None d
           = Inr \<lparr>color = Num (of_nat ((16 * v1 + v2) * 65536 + (16 * v3 + v4) * 256
                               + (16 * v5 + v6))), alpha = Num 255\<rparr>
       \<and> parseParameters mode (Str [CHR ''#'', c1, c2, c3, c4, c5, c6]) None None d
           = parseParameters mode (Str [c1, c2, c3, c4, c5, c6]) None None d
       \<and> rgb_of (Num (of_nat ((16 * v1 + v2) * 65536 + (16 * v3 + v4) * 256 + (16 * v5 + v6))))
           = \<lparr>rgb_color = Num (of_nat ((16 * v1 + v2) * 65536 + (16 * v3 + v4) * 256
                                   + (16 * v5 + v6))),
              red = Num (of_nat (16 * v1 + v2)), green = Num (of_nat (16 * v3 + v4)),
              blue = Num (of_nat (16 * v5 + v6))\<rparr>
       \<and> parseParameters mode (Str [c1, c2, c3, c4, c5, c6, c7, c8]) None None d
           = Inr \<lparr>color = Num (of_nat ((16 * v1 + v2) * 65536 + (16 * v3 + v4) * 256
                               + (16 * v5 + v6))), alpha = Num (of_nat (16 * v7 + v8))\<rparr>
       \<and> parseParameters mode (Str [CHR ''#'', c1, c2, c3, c4, c5, c6, c7, c8]) None None d
           = parseParameters mode (Str [c1, c2, c3, c4, c5, c6, c7, c8]) None None d"
proof -
  have small: "16 * v1 + v2 < 256" "16 * v3 + v4 < 256" "16 * v5 + v6 < 256"
    using assms(1-6) [THEN hexDigitVal_less] by simp_all
  show ?thesis
    using parse3 [OF assms(1-3), of mode d] parse6 [OF assms(1-6), of mode d]
      parse8 [OF assms, of mode d] rgb_of_digits [OF small]
    by simp
qed

theorem hex_string_forms_witness:
  "hexDigitVal CHR ''3'' = Some 3 \<and> hexDigitVal CHR ''6'' = Some 6
   \<and> hexDigitVal CHR ''9'' = Some 9 \<and> hexDigitVal CHR ''f'' = Some 15
   \<and> parseParameters RGB (Str ''#336699'') None None None
       = Inr \<lparr>color = Num 3368601, alpha = Num 255\<rparr>
   \<and> rgb_of (Num 3368601)
       = \<lparr>rgb_color = Num 3368601, red = Num 51, green = Num 102, blue = Num 153\<rparr>
   \<and> parseParameters RGB (Str ''369'') None None None
       = Inr \<lparr>color = Num 3368601, alpha = Num 255\<rparr>
   \<and> parseParameters RGB (Str ''336699ff'') None None None
       = Inr \<lparr>color = Num 3368601, alpha = Num 255\<rparr>"
proof -
  have d: "hexDigitVal CHR ''3'' = Some 3" "hexDigitVal CHR ''6'' = Some 6"
    "hexDigitVal CHR ''9'' = Some 9" "hexDigitVal CHR ''f'' = Some 15"
    by (simp_all add: hexDigitVal_def)
  show ?thesis
    using hex_string_forms [OF d(1) d(1) d(2) d(2) d(3) d(3) d(4) d(4), of RGB None]
      hex_string_forms [OF d(1) d(2) d(3) d(2) d(3) d(3) d(4) d(4), of RGB None] d
    by simp
qed

section \<open>What the accessors leave unchanged\<close>

lemma get_rgb_frame:
  "col_a (snd (get_rgb s)) = col_a s" "col_c (snd (get_rgb s)) = col_c s"
  "lhsl (snd (get_rgb s)) = lhsl s"
  by (simp_all add: get_rgb_def Let_def split: option.splits)

lemma get_chan_frame:
  "col_a (snd (get_red s)) = col_a s" "col_c (snd (get_red s)) = col_c s"
  "col_a (snd (get_green s)) = col_a s" "col_c (snd (get_green s)) = col_c s"
  "col_a (snd (get_blue s)) = col_a s" "col_c (snd (get_blue s)) = col_c s"
  by (simp_all add: get_red_def get_green_def get_blue_def get_rgb_frame split_beta)

lemma get_hsl_frame:
  "col_a (snd (get_hsl s)) = col_a s" "col_c (snd (get_hsl s)) = col_c s"
  by (simp_all add: get_hsl_def Let_def split_beta get_chan_frame split: option.splits)

lemma get_hsl_chan_frame:
  "col_a (snd (get_hue s)) = col_a s" "col_c (snd (get_hue s)) = col_c s"
  "col_a (snd (get_saturation s)) = col_a s" "col_c (snd (get_saturation s)) = col_c s"
  "col_a (snd (get_lightness s)) = col_a s" "col_c (snd (get_lightness s)) = col_c s"
  by (simp_all add: get_hue_def get_saturation_def get_lightness_def get_hsl_frame split_beta)

lemma set_rgb_alpha:
  "col_a (set_red s v) = col_a s" "col_a (set_green s v) = col_a s" "col_a (set_blue s v) = col_a s"
  by (simp_all add: set_red_def set_green_def set_blue_def split_beta get_chan_frame)

lemma set_hsl_alpha:
  "col_a (set_hue s v) = col_a s" "col_a (set_saturation s v) = col_a s" "col_a (set_lightness s v) = col_a s"
  by (simp_all add: set_hue_def set_saturation_def set_lightness_def split_beta get_hsl_chan_frame)

lemma set_hex_frame:
  "set_hex mode s h = Inl InvalidFormat \<or> (\<exists>p. set_hex mode s h = Inr (s\<lparr>col_c := p\<rparr>))"
proof (cases "parseParameters mode (Str h) None None None")
  case (Inl e)
  then show ?thesis by (cases e) (simp add: set_hex_def)
next
  case (Inr co)
  then show ?thesis by (auto simp: set_hex_def)
qed

text \<open>
  C10. The setters of red, green, blue, hue, saturation and lightness leave the stored
  alpha as it was. The \<open>hex\<close> setter either fails, changing nothing, or returns the
  instance with only the packed value replaced; so an 8-digit or a 4-digit string,
  which carries an alpha, changes the packed value and not the alpha.
\<close>

theorem setters_keep_alpha:
  "col_a (set_red s v) = col_a s \<and> col_a (set_green s v) = col_a s
   \<and> col_a (set_blue s v) = col_a s \<and> col_a (set_hue s v) = col_a s
   \<and> col_a (set_saturation s v) = col_a s \<and> col_a (set_lightness s v) = col_a s
   \<and> (set_hex mode s h = Inl InvalidFormat \<or> (\<exists>p. set_hex mode s h = Inr (s\<lparr>col_c := p\<rparr>)))
   \<and> set_hex RGB \<lparr>col_c = Num 0, col_a = Num 255, lhsl = None, lrgb = None\<rparr> ''#11223344''
       = Inr \<lparr>col_c = Num 1122867, col_a = Num 255, lhsl = None, lrgb = None\<rparr>
   \<and> set_hex RGB \<lparr>col_c = Num 0, col_a = Num 255, lhsl = None, lrgb = None\<rparr> ''f08a''
       = Inr \<lparr>col_c = Num 16711816, col_a = Num 255, lhsl = None, lrgb = None\<rparr>"
proof -
  have "set_hex RGB \<lparr>col_c = Num 0, col_a = Num 255, lhsl = None, lrgb = None\<rparr> ''#11223344''
       = Inr \<lparr>col_c = Num 1122867, col_a = Num 255, lhsl = None, lrgb = None\<rparr>"
    by (simp add: set_hex_def resolver_defs)
  moreover have "set_hex RGB \<lparr>col_c = Num 0, col_a = Num 255, lhsl = None, lrgb = None\<rparr> ''f08a''
       = Inr \<lparr>col_c = Num 16711816, col_a = Num 255, lhsl = None, lrgb = None\<rparr>"
    by (simp add: set_hex_def resolver_defs)
  ultimately show ?thesis
    using set_hex_frame [of mode s h] by (simp add: set_rgb_alpha set_hsl_alpha)
qed

section \<open>The cached views\<close>

lemma jeq_same: "jeq x y \<Longrightarrow> x = y"
  by (cases x; cases y) simp_all

lemma get_rgb_coherent:
  assumes "coherent s"
  shows "fst (get_rgb s) = rgb_of (col_c s)" and "coherent (snd (get_rgb s))"
  using assms
  by (auto simp add: get_rgb_def get_color_def Let_def coherent_def jne_def rgb_of_def
      dest!: jeq_same split: option.splits)

lemma get_chan_coherent:
  assumes "coherent s"
  shows "fst (get_red s) = red (rgb_of (col_c s))" "coherent (snd (get_red s))"
    "fst (get_green s) = green (rgb_of (col_c s))" "coherent (snd (get_green s))"
    "fst (get_blue s) = blue (rgb_of (col_c s))" "coherent (snd (get_blue s))"
  by (simp_all add: get_red_def get_green_def get_blue_def split_beta get_rgb_coherent [OF assms])

lemma hsl_fill:
  assumes "coherent s"
  defines "s3 \<equiv> snd (get_blue (snd (get_green (snd (get_red s)))))"
  shows "hsl_of (get_color s3) (fst (get_red s)) (fst (get_green (snd (get_red s))))
           (fst (get_blue (snd (get_green (snd (get_red s)))))) = hsl_view (col_c s)"
    and "coherent s3" and "col_c s3 = col_c s"
proof -
  have c1: "coherent (snd (get_red s))" by (rule get_chan_coherent(2) [OF assms(1)])
  have c2: "coherent (snd (get_green (snd (get_red s))))" by (rule get_chan_coherent(4) [OF c1])
  show "coherent s3" unfolding s3_def by (rule get_chan_coherent(6) [OF c2])
  show p: "col_c s3 = col_c s" by (simp add: s3_def get_chan_frame)
  show "hsl_of (get_color s3) (fst (get_red s)) (fst (get_green (snd (get_red s))))
           (fst (get_blue (snd (get_green (snd (get_red s)))))) = hsl_view (col_c s)"
    by (simp add: get_chan_coherent [OF assms(1)] get_chan_coherent [OF c1] get_chan_coherent [OF c2]
        get_chan_frame hsl_view_def Let_def get_color_def p)
qed

lemma hsl_color_view: "hsl_color (hsl_view p) = p"
  by (simp add: hsl_view_def hsl_of_def Let_def)

lemma get_hsl_coherent:
  assumes "coherent s"
  shows "fst (get_hsl s) = hsl_view (col_c s)" and "coherent (snd (get_hsl s))"
proof -
  let ?s3 = "snd (get_blue (snd (get_green (snd (get_red s)))))"
  note f = hsl_fill [OF assms]
  have cs: "coherent (?s3\<lparr>lhsl := Some (hsl_view (col_c s))\<rparr>)"
    using f(2) by (simp add: coherent_def hsl_color_view)
  show "fst (get_hsl s) = hsl_view (col_c s)"
    using assms f(1)
    by (auto simp add: get_hsl_def Let_def split_beta coherent_def jne_def get_color_def
        dest!: jeq_same split: option.splits)
  show "coherent (snd (get_hsl s))"
    using assms f(1) cs
    by (auto simp add: get_hsl_def Let_def split_beta jne_def split: option.splits)
qed

lemma coherent_col_c: "coherent (s\<lparr>col_c := p\<rparr>) = coherent s"
  by (simp add: coherent_def)

lemma get_hsl_chan_coherent:
  assumes "coherent s"
  shows "coherent (snd (get_hue s))" "coherent (snd (get_saturation s))"
    "coherent (snd (get_lightness s))"
  by (simp_all add: get_hue_def get_saturation_def get_lightness_def split_beta
      get_hsl_coherent [OF assms])

lemma set_coherent:
  assumes "coherent s"
  shows "coherent (set_red s v)" "coherent (set_green s v)" "coherent (set_blue s v)"
    "coherent (set_hue s v)" "coherent (set_saturation s v)" "coherent (set_lightness s v)"
proof -
  note rgb = get_chan_coherent [OF assms]
  note hsl = get_hsl_chan_coherent [OF assms]
  show "coherent (set_red s v)"
    by (simp add: set_red_def split_beta coherent_col_c get_chan_coherent [OF rgb(4)])
  show "coherent (set_green s v)"
    by (simp add: set_green_def split_beta coherent_col_c get_chan_coherent [OF rgb(2)])
  show "coherent (set_blue s v)"
    by (simp add: set_blue_def split_beta coherent_col_c get_chan_coherent [OF rgb(2)])
  show "coherent (set_hue s v)"
    by (simp add: set_hue_def split_beta coherent_col_c get_hsl_chan_coherent [OF hsl(2)])
  show "coherent (set_saturation s v)"
    by (simp add: set_saturation_def split_beta coherent_col_c get_hsl_chan_coherent [OF hsl(1)])
  show "coherent (set_lightness s v)"
    by (simp add: set_lightness_def split_beta coherent_col_c get_hsl_chan_coherent [OF hsl(1)])
qed

lemma Color_new_coherent: "Color_new mode a b c d = Inr s \<Longrightarrow> coherent s"
  by (auto simp: Color_new_def coherent_def split: sum.splits)

lemma set_hex_coherent: "coherent s \<Longrightarrow> set_hex mode s h = Inr s' \<Longrightarrow> coherent s'"
  by (auto simp: set_hex_def coherent_def split: sum.splits)

lemma reachable_coherent: "reachable s \<Longrightarrow> coherent s"
proof (induction rule: reachable.induct)
  case (new mode a b c d s)
  then show ?case by (rule Color_new_coherent)
next
  case (write_hex s mode h s')
  then show ?case by (blast intro: set_hex_coherent)
next
  case (write_alpha s v s')
  then show ?case by (simp add: set_alpha_diverges)
qed (simp_all add: get_rgb_coherent get_hsl_coherent set_coherent)

lemma fresh_views:
  "fst (get_rgb \<lparr>col_c = p, col_a = q, lhsl = None, lrgb = None\<rparr>) = rgb_of p"
  "fst (get_hsl \<lparr>col_c = p, col_a = q, lhsl = None, lrgb = None\<rparr>) = hsl_view p"
proof -
  have "coherent \<lparr>col_c = p, col_a = q, lhsl = None, lrgb = None\<rparr>"
    by (simp add: coherent_def)
  then show "fst (get_rgb \<lparr>col_c = p, col_a = q, lhsl = None, lrgb = None\<rparr>) = rgb_of p"
    "fst (get_hsl \<lparr>col_c = p, col_a = q, lhsl = None, lrgb = None\<rparr>) = hsl_view p"
    by (simp_all add: get_rgb_coherent get_hsl_coherent)
qed

lemma black_then_red:
  "Color_new RGB (Number (Num 0)) None None None
     = Inr \<lparr>col_c = Num 0, col_a = Num 255, lhsl = None, lrgb = None\<rparr>"
  "col_c (set_red (snd (get_hsl \<lparr>col_c = Num 0, col_a = Num 255, lhsl = None, lrgb = None\<rparr>))
            (Num 255)) = Num 16711680"
  "fst (get_hsl (set_red
          (snd (get_hsl \<lparr>col_c = Num 0, col_a = Num 255, lhsl = None, lrgb = None\<rparr>))
          (Num 255)))
     = \<lparr>hsl_color = Num 16711680, hue = Num 0, saturation = Num 100, lightness = Num 50\<rparr>"
proof -
  let ?black = "\<lparr>col_c = Num 0, col_a = Num 255, lhsl = None, lrgb = None\<rparr>"
  let ?v0 = "\<lparr>hsl_color = Num 0, hue = Num 0, saturation = Num 0, lightness = Num 0\<rparr>"
  let ?r0 = "\<lparr>rgb_color = Num 0, red = Num 0, green = Num 0, blue = Num 0\<rparr>"
  show "Color_new RGB (Number (Num 0)) None None None = Inr ?black"
    by (simp add: resolver_defs number_defs)
  have 1: "get_hsl ?black
             = (?v0, \<lparr>col_c = Num 0, col_a = Num 255, lhsl = Some ?v0, lrgb = Some ?r0\<rparr>)"
    by (simp add: getter_defs number_defs Let_def)
  have 2: "set_red \<lparr>col_c = Num 0, col_a = Num 255, lhsl = Some ?v0, lrgb = Some ?r0\<rparr> (Num 255)
             = \<lparr>col_c = Num 16711680, col_a = Num 255, lhsl = Some ?v0, lrgb = Some ?r0\<rparr>"
    by (simp add: set_red_def getter_defs getColorValueFromRGB_def number_defs Let_def)
  have 3: "fst (get_hsl \<lparr>col_c = Num 16711680, col_a = Num 255, lhsl = Some ?v0,
                        lrgb = Some ?r0\<rparr>)
             = \<lparr>hsl_color = Num 16711680, hue = Num 0, saturation = Num 100,
                lightness = Num 50\<rparr>"
    by (simp add: getter_defs number_defs Let_def)
  show "col_c (set_red (snd (get_hsl ?black)) (Num 255)) = Num 16711680"
    by (simp only: 1 2 snd_conv) simp
  show "fst (get_hsl (set_red (snd (get_hsl ?black)) (Num 255)))
          = \<lparr>hsl_color = Num 16711680, hue = Num 0, saturation = Num 100,
             lightness = Num 50\<rparr>"
    by (simp only: 1 2 3 snd_conv)
qed

text \<open>
  Two packed values at which the rounding of the double arithmetic decides the view:
  \<open>h * 60\<close> comes out just below 122.5 at \<open>0x001801\<close>, and \<open>s * 100\<close> just
  below 93.75 at \<open>0x03035d\<close>.
\<close>

lemma hsl_view_rounding:
  "hsl_view (Num 6145)
     = \<lparr>hsl_color = Num 6145, hue = Num 122, saturation = Num 100,
        lightness = Num (rnd (47 / 10))\<rparr>"
  "hsl_view (Num 197469)
     = \<lparr>hsl_color = Num 197469, hue = Num 240, saturation = Num (rnd (937 / 10)),
        lightness = Num (rnd (188 / 10))\<rparr>"
  by (simp_all add: hsl_view_def getter_defs number_defs rnd_defs)

text \<open>
  C8. In every instance a program can reach, the \<open>rgb\<close> read and the \<open>hsl\<close> read
  return the views of the packed value the instance holds at that moment, the same a
  newly built instance with that packed value returns; a cache filled for an earlier
  packed value is never returned. In particular, on an instance built black and read
  through \<open>hsl\<close>, setting red to 255 and reading \<open>hsl\<close> again gives hue 0,
  saturation 100, lightness 50.
\<close>

theorem cached_views_follow_packed:
  "(reachable s \<longrightarrow>
      fst (get_rgb s) = rgb_of (col_c s) \<and> fst (get_hsl s) = hsl_view (col_c s)
      \<and> fst (get_rgb s) = fst (get_rgb \<lparr>col_c = col_c s, col_a = col_a s, lhsl = None,
                                        lrgb = None\<rparr>)
      \<and> fst (get_hsl s) = fst (get_hsl \<lparr>col_c = col_c s, col_a = col_a s, lhsl = None,
                                        lrgb = None\<rparr>))
   \<and> Color_new RGB (Number (Num 0)) None None None
       = Inr \<lparr>col_c = Num 0, col_a = Num 255, lhsl = None, lrgb = None\<rparr>
   \<and> fst (get_hsl (set_red
            (snd (get_hsl \<lparr>col_c = Num 0, col_a = Num 255, lhsl = None, lrgb = None\<rparr>))
            (Num 255)))
       = \<lparr>hsl_color = Num 16711680, hue = Num 0, saturation = Num 100, lightness = Num 50\<rparr>"
proof -
  have "fst (get_rgb s) = rgb_of (col_c s) \<and> fst (get_hsl s) = hsl_view (col_c s)"
    if "reachable s"
    using reachable_coherent [OF that] by (simp add: get_rgb_coherent get_hsl_coherent)
  then show ?thesis
    by (simp add: fresh_views black_then_red)
qed

theorem cached_views_follow_packed_witness:
  "reachable (set_red
      (snd (get_hsl \<lparr>col_c = Num 0, col_a = Num 255, lhsl = None, lrgb = None\<rparr>)) (Num 255))
   \<and> fst (get_hsl (set_red
            (snd (get_hsl \<lparr>col_c = Num 0, col_a = Num 255, lhsl = None, lrgb = None\<rparr>))
            (Num 255)))
       = hsl_view (Num 16711680)"
proof -
  let ?s = "set_red
      (snd (get_hsl \<lparr>col_c = Num 0, col_a = Num 255, lhsl = None, lrgb = None\<rparr>)) (Num 255)"
  have r: "reachable ?s"
    by (intro reachable.write_red reachable.read_hsl reachable.new [OF black_then_red(1)])
  then show ?thesis
    using cached_views_follow_packed [of ?s] by (simp add: black_then_red(2))
qed

section \<open>The range of the packed value\<close>

lemma valid_packInt:
  assumes "byte r" "byte g" "byte b"
  shows "valid_packed (Num (of_int (packInt r g b)))"
  using packInt_range [OF assms] assms
  by (simp add: valid_packed_def is_packed24_def is_byte_def rgb_of_packInt [OF assms] byte_def)

lemma pack_valid:
  assumes "byte (toInt32 x)" "byte (toInt32 y)" "byte (toInt32 z)"
  shows "valid_packed (jor (jor (jshl x 16) (jshl y 8)) z)"
  by (simp only: pack_bytes [OF assms] valid_packInt [OF assms])

text \<open>
  The fraction is dropped towards zero, so every number above \<open>-1\<close> and below 256
  becomes a byte: a channel that the arithmetic leaves within less than 1 of the range
  from 0 to 255 is still packed as a byte.
\<close>

lemma byte_small:
  assumes "- 1 < q" "q < 256"
  shows "byte (toInt32 (Num q))"
proof (cases "0 \<le> q")
  case True
  then have "0 \<le> \<lfloor>q\<rfloor>" "\<lfloor>q\<rfloor> < 256"
    using assms by (simp_all add: floor_less_iff)
  then show ?thesis
    using True by (simp add: trunc_def byte_def int32_id)
next
  case False
  then have "\<lceil>q\<rceil> = 0"
    using assms by (simp add: ceiling_eq_iff)
  then show ?thesis
    using False by (simp add: trunc_def byte_def)
qed

lemma clamp_byte: "byte (toInt32 (clamp x (Num 255) (Num 0)))"
proof (cases x)
  case NaN
  then show ?thesis by (simp add: clamp_def byte_def)
next
  case (Num q)
  have "byte (toInt32 (Num (max 0 (min q 255))))"
    by (rule byte_small) simp_all
  then show ?thesis
    using Num by (simp add: clamp_def del: toInt32.simps)
qed

lemma unitish_byte:
  assumes "unitish x"
  shows "byte (toInt32 (jmul x (Num 255)))"
proof (cases x)
  case NaN
  then show ?thesis by (simp add: byte_def)
next
  case (Num q)
  then have q: "- (1 / 1000000) \<le> q" "q \<le> 1 + 1 / 1000000"
    using assms by (simp_all add: unitish_def)
  then have "\<bar>rnd (q * 255) - q * 255\<bar> \<le> 1 / 17592186044416"
    by (intro rnd_close) (simp add: abs_if)
  then have "- 1 < rnd (q * 255)" "rnd (q * 255) < 256"
    using q by (simp_all add: abs_if split: if_splits)
  then have "byte (toInt32 (Num (rnd (q * 255))))"
    by (rule byte_small)
  then show ?thesis
    using Num by (simp del: toInt32.simps)
qed

lemma rgb_color_valid: "valid_packed (color (getColorValueFromRGB r g b a))"
  by (simp add: getColorValueFromRGB_def Let_def pack_valid clamp_byte)

subsection \<open>The channels of the HSL conversion\<close>

text \<open>
  The conversion computes with rounded operations, so its channels are not exactly in
  the range from 0 to 1. Each rounding moves a value of size below 1024 by at most
  \<open>2^-44\<close>; the errors of the few operations add up to far less than a millionth,
  and the truncation of the packing absorbs them.
\<close>

lemma rem2_range:
  fixes y :: rat
  assumes "0 \<le> y"
  shows "0 \<le> y - 2 * of_int (trunc (y / 2)) \<and> y - 2 * of_int (trunc (y / 2)) < 2"
proof -
  have t: "trunc (y / 2) = \<lfloor>y / 2\<rfloor>"
    using assms by (simp add: trunc_def)
  have "of_int \<lfloor>y / 2\<rfloor> \<le> y / 2" "y / 2 < of_int \<lfloor>y / 2\<rfloor> + 1"
    by linarith+
  then show ?thesis
    unfolding t by simp
qed

lemma hsl_weight:
  fixes hq :: rat
  assumes "0 \<le> hq"
  defines "y \<equiv> rnd (hq / 60)"
  defines "w \<equiv> rnd (1 - \<bar>rnd ((y - 2 * of_int (trunc (y / 2))) - 1)\<bar>)"
  shows "- (1 / 1000000000) \<le> w \<and> w \<le> 1 + 1 / 1000000000"
proof -
  let ?r = "y - 2 * of_int (trunc (y / 2))"
  have "0 \<le> y" unfolding y_def using assms(1) by (intro rnd_nonneg) simp
  then have r: "0 \<le> ?r \<and> ?r < 2" by (rule rem2_range)
  have t: "\<bar>rnd (?r - 1) - (?r - 1)\<bar> \<le> 1 / 17592186044416"
    using r by (intro rnd_close) (simp add: abs_if)
  let ?a = "\<bar>rnd (?r - 1)\<bar>"
  have a: "0 \<le> ?a" "?a \<le> 1 + 1 / 17592186044416"
    using t r by (simp_all add: abs_if split: if_splits)
  have "\<bar>rnd (1 - ?a) - (1 - ?a)\<bar> \<le> 1 / 17592186044416"
    using a by (intro rnd_close) (simp add: abs_if)
  then show ?thesis
    unfolding w_def using a by (simp add: abs_if split: if_splits)
qed

lemma hsl_core:
  fixes sq lq w :: rat
  assumes "0 \<le> sq" "sq \<le> 100" "0 \<le> lq" "lq \<le> 100"
    and "- (1 / 1000000000) \<le> w" "w \<le> 1 + 1 / 1000000000"
  defines "S \<equiv> rnd (sq / 100)"
  defines "L \<equiv> rnd (lq / 100)"
  defines "k \<equiv> rnd (1 - \<bar>rnd (rnd (2 * L) - 1)\<bar>)"
  defines "c \<equiv> rnd (k * S)"
  defines "m \<equiv> rnd (L - rnd (c / 2))"
  shows "- (1 / 1000000) \<le> rnd (0 + m) \<and> rnd (0 + m) \<le> 1 + 1 / 1000000"
    and "- (1 / 1000000) \<le> rnd (c + m) \<and> rnd (c + m) \<le> 1 + 1 / 1000000"
    and "- (1 / 1000000) \<le> rnd (rnd (c * w) + m) \<and> rnd (rnd (c * w) + m) \<le> 1 + 1 / 1000000"
proof -
  let ?e = "1 / 17592186044416 :: rat"
  have S: "0 \<le> S" "S \<le> 1 + ?e"
  proof -
    show "0 \<le> S" unfolding S_def using assms(1) by (intro rnd_nonneg) simp
    have "\<bar>rnd (sq / 100) - sq / 100\<bar> \<le> ?e"
      using assms(1,2) by (intro rnd_close) (simp add: abs_if)
    then show "S \<le> 1 + ?e"
      unfolding S_def using assms(2) by (simp add: abs_if split: if_splits)
  qed
  have L: "0 \<le> L" "L \<le> 1 + ?e"
  proof -
    show "0 \<le> L" unfolding L_def using assms(3) by (intro rnd_nonneg) simp
    have "\<bar>rnd (lq / 100) - lq / 100\<bar> \<le> ?e"
      using assms(3,4) by (intro rnd_close) (simp add: abs_if)
    then show "L \<le> 1 + ?e"
      unfolding L_def using assms(4) by (simp add: abs_if split: if_splits)
  qed
  let ?t1 = "rnd (2 * L)"
  let ?t2 = "rnd (?t1 - 1)"
  have t1: "\<bar>?t1 - 2 * L\<bar> \<le> ?e"
    using L by (intro rnd_close) (simp add: abs_if)
  have t2: "\<bar>?t2 - (?t1 - 1)\<bar> \<le> ?e"
    using t1 L by (intro rnd_close) (simp add: abs_if split: if_splits)
  have k0: "\<bar>k - (1 - \<bar>?t2\<bar>)\<bar> \<le> ?e"
    unfolding k_def using t1 t2 L by (intro rnd_close) (simp add: abs_if split: if_splits)
  have k: "- (6 * ?e) \<le> k" "k \<le> 2 * L + 3 * ?e" "k \<le> 2 - 2 * L + 3 * ?e"
    using k0 t1 t2 L by (simp_all add: abs_if split: if_splits)
  have k1: "k \<le> 1 + 3 * ?e" using k(2,3) by linarith
  have k2: "k \<le> 2" using k1 by simp
  have p: "- (4 * (6 * ?e)) \<le> k * S \<and> k * S \<le> max k 0 + 4 * (6 * ?e)"
    using k(1) k2 S by (intro prod_slack) simp_all
  have c0: "\<bar>c - k * S\<bar> \<le> ?e"
    unfolding c_def using p k2 by (intro rnd_close) (simp add: abs_if max_def split: if_splits)
  have c: "- (25 * ?e) \<le> c" "c \<le> max k 0 + 25 * ?e"
    using c0 p by (simp_all add: abs_if split: if_splits)
  have c2: "\<bar>rnd (c / 2) - c / 2\<bar> \<le> ?e"
    using c k2 by (intro rnd_close) (simp add: abs_if max_def split: if_splits)
  have m0: "\<bar>m - (L - rnd (c / 2))\<bar> \<le> ?e"
    unfolding m_def using c c2 k2 L
    by (intro rnd_close) (simp add: abs_if max_def split: if_splits)
  have m: "- (16 * ?e) \<le> m" "m \<le> 1 + 16 * ?e" "c + m \<le> 1 + 17 * ?e" "- (41 * ?e) \<le> c + m"
    using m0 c2 c k L by (simp_all add: abs_if max_def split: if_splits)
  have "\<bar>rnd (0 + m) - (0 + m)\<bar> \<le> ?e"
    using m by (intro rnd_close) (simp add: abs_if)
  then show "- (1 / 1000000) \<le> rnd (0 + m) \<and> rnd (0 + m) \<le> 1 + 1 / 1000000"
    using m by (simp add: abs_if split: if_splits)
  have "\<bar>rnd (c + m) - (c + m)\<bar> \<le> ?e"
    using m by (intro rnd_close) (simp add: abs_if)
  then show "- (1 / 1000000) \<le> rnd (c + m) \<and> rnd (c + m) \<le> 1 + 1 / 1000000"
    using m by (simp add: abs_if split: if_splits)
  have cb: "c \<le> 2" using c(2) k1 by (simp add: max_def split: if_splits)
  have q: "- (4 * (1 / 1000000000)) \<le> c * w \<and> c * w \<le> max c 0 + 4 * (1 / 1000000000)"
    using c(1) cb assms(5,6) by (intro prod_slack) simp_all
  have x0: "\<bar>rnd (c * w) - c * w\<bar> \<le> ?e"
    using q cb by (intro rnd_close) (simp add: abs_if max_def split: if_splits)
  have x: "- (5 / 1000000000) \<le> rnd (c * w)" "rnd (c * w) \<le> max c 0 + 5 / 1000000000"
    using x0 q by (simp_all add: abs_if split: if_splits)
  have xm: "- (6 / 1000000000) \<le> rnd (c * w) + m" "rnd (c * w) + m \<le> 1 + 6 / 1000000000"
    using x m by (simp_all add: max_def split: if_splits)
  have "\<bar>rnd (rnd (c * w) + m) - (rnd (c * w) + m)\<bar> \<le> ?e"
    using xm by (intro rnd_close) (simp add: abs_if)
  then show "- (1 / 1000000) \<le> rnd (rnd (c * w) + m) \<and> rnd (rnd (c * w) + m) \<le> 1 + 1 / 1000000"
    using xm by (simp add: abs_if split: if_splits)
qed

lemma clamp_cases:
  assumes "0 \<le> hi"
  shows "clamp x (Num hi) (Num 0) = NaN
         \<or> (\<exists>q. clamp x (Num hi) (Num 0) = Num q \<and> 0 \<le> q \<and> q \<le> hi)"
  using assms by (cases x) (simp_all add: clamp_def)

lemma hsl_channels_unitish:
  assumes H: "h = NaN \<or> (\<exists>q. h = Num q \<and> 0 \<le> q \<and> q \<le> 360)"
    and S: "s0 = NaN \<or> (\<exists>q. s0 = Num q \<and> 0 \<le> q \<and> q \<le> 100)"
    and L: "l0 = NaN \<or> (\<exists>q. l0 = Num q \<and> 0 \<le> q \<and> q \<le> 100)"
  defines "s \<equiv> jdiv s0 (Num 100)"
  defines "l \<equiv> jdiv l0 (Num 100)"
  defines "c \<equiv> jmul (jsub (Num 1) (jabs (jsub (jmul (Num 2) l) (Num 1)))) s"
  defines "x \<equiv> jmul c (jsub (Num 1) (jabs (jsub (jrem (jdiv h (Num 60)) (Num 2)) (Num 1))))"
  defines "m \<equiv> jsub l (jdiv c (Num 2))"
  shows "unitish (jadd (fst (hslSextant h c x)) m)
       \<and> unitish (jadd (fst (snd (hslSextant h c x))) m)
       \<and> unitish (jadd (snd (snd (hslSextant h c x))) m)"
proof -
  consider (nan) "s0 = NaN \<or> l0 = NaN"
    | (num) sq lq where "s0 = Num sq" "0 \<le> sq" "sq \<le> 100" "l0 = Num lq" "0 \<le> lq" "lq \<le> 100"
    using S L by blast
  then show ?thesis
  proof cases
    case nan
    then have "m = NaN"
      by (auto simp: m_def c_def s_def l_def)
    then show ?thesis
      by (cases "hslSextant h c x") (simp add: unitish_def)
  next
    case num
    let ?S = "rnd (sq / 100)"
    let ?L = "rnd (lq / 100)"
    let ?k = "rnd (1 - \<bar>rnd (rnd (2 * ?L) - 1)\<bar>)"
    let ?c = "rnd (?k * ?S)"
    let ?m = "rnd (?L - rnd (?c / 2))"
    have c: "c = Num ?c"
      by (simp add: c_def s_def l_def num)
    have m: "m = Num ?m"
      by (simp add: m_def c l_def num)
    from H show ?thesis
    proof
      assume "h = NaN"
      then show ?thesis
        using hsl_core(1) [OF num(2,3,5,6), of 0]
        by (simp add: hslSextant_NaN m unitish_def)
    next
      assume "\<exists>q. h = Num q \<and> 0 \<le> q \<and> q \<le> 360"
      then obtain hq where h: "h = Num hq" "0 \<le> hq" "hq \<le> 360"
        by blast
      let ?y = "rnd (hq / 60)"
      let ?w = "rnd (1 - \<bar>rnd ((?y - 2 * of_int (trunc (?y / 2))) - 1)\<bar>)"
      have w: "- (1 / 1000000000) \<le> ?w" "?w \<le> 1 + 1 / 1000000000"
        using hsl_weight [OF h(2)] by simp_all
      have x: "x = Num (rnd (?c * ?w))"
        by (simp add: x_def c h(1))
      show ?thesis
        using hsl_core [OF num(2,3,5,6) w]
        by (simp add: h(1) hslSextant_collapse m c x unitish_def)
    qed
  qed
qed

lemma hsl_color_valid: "valid_packed (color (getColorValueFromHSL h s l a))"
proof -
  have H: "clamp h (Num 360) (Num 0) = NaN
         \<or> (\<exists>q. clamp h (Num 360) (Num 0) = Num q \<and> 0 \<le> q \<and> q \<le> 360)"
    by (rule clamp_cases) simp
  have S: "clamp s (Num 100) (Num 0) = NaN
         \<or> (\<exists>q. clamp s (Num 100) (Num 0) = Num q \<and> 0 \<le> q \<and> q \<le> 100)"
    by (rule clamp_cases) simp
  have L: "clamp l (Num 100) (Num 0) = NaN
         \<or> (\<exists>q. clamp l (Num 100) (Num 0) = Num q \<and> 0 \<le> q \<and> q \<le> 100)"
    by (rule clamp_cases) simp
  show ?thesis
    using hsl_channels_unitish [OF H S L]
    by (simp add: getColorValueFromHSL_def Let_def split_beta pack_valid unitish_byte)
qed

lemma resolveNumeric_valid: "valid_packed (color (resolveNumeric mode n b c d))"
  by (cases mode) (simp_all add: resolveNumeric_def Let_def rgb_color_valid hsl_color_valid)

subsection \<open>What the RGB write path stores\<close>

lemma toInt32_clamp: "toInt32 (clamp x (Num 255) (Num 0)) = clampedByte x"
proof (cases x)
  case NaN
  then show ?thesis by (simp add: clamp_def clampedByte_def)
next
  case (Num q)
  have "0 \<le> \<lfloor>max 0 (min q 255)\<rfloor>" "\<lfloor>max 0 (min q 255)\<rfloor> < 2147483648"
    by (simp_all add: floor_less_iff)
  then show ?thesis
    using Num by (simp add: clamp_def clampedByte_def trunc_def int32_id)
qed

lemma byte_clampedByte: "byte (clampedByte x)"
  using clamp_byte [of x] by (simp only: toInt32_clamp)

lemma rgb_color_clamped:
  "color (getColorValueFromRGB r g b a)
     = Num (of_int (clampedByte r * 65536 + clampedByte g * 256 + clampedByte b))"
proof -
  have "color (getColorValueFromRGB r g b a)
          = Num (of_int (packInt (clampedByte r) (clampedByte g) (clampedByte b)))"
    using pack_bytes [OF clamp_byte clamp_byte clamp_byte, of r g b]
    by (simp add: getColorValueFromRGB_def Let_def toInt32_clamp del: toInt32.simps)
  then show ?thesis
    by (simp add: packInt_sum byte_clampedByte)
qed

lemma rgb_alpha_clamped:
  "alpha (getColorValueFromRGB r g b (Num a)) = Num (max 0 (min a 255))"
  by (simp add: getColorValueFromRGB_def Let_def clamp_def)

lemma rgb_of_clamped:
  "rgb_of (Num (of_int (clampedByte r * 65536 + clampedByte g * 256 + clampedByte b)))
     = \<lparr>rgb_color = Num (of_int (clampedByte r * 65536 + clampedByte g * 256 + clampedByte b)),
        red = Num (of_int (clampedByte r)), green = Num (of_int (clampedByte g)),
        blue = Num (of_int (clampedByte b))\<rparr>"
  using rgb_of_packInt [OF byte_clampedByte byte_clampedByte byte_clampedByte, of r g b]
  by (simp add: packInt_sum byte_clampedByte)

text \<open>A channel of the \<open>rgb\<close> view is a byte already, and is stored again as it is.\<close>

lemma masked_byte:
  fixes k :: int
  shows "byte (drop_bit 16 (k AND 16711680))" "byte (drop_bit 8 (k AND 65280))"
    "byte (k AND 255)"
proof -
  have "0 \<le> k AND 16711680" "k AND 16711680 \<le> 16711680"
    using AND_upper2 [of 16711680 k] by simp_all
  then have "0 \<le> (k AND 16711680) div 65536" "(k AND 16711680) div 65536 \<le> 255"
    by linarith+
  then show "byte (drop_bit 16 (k AND 16711680))"
    by (simp add: byte_def drop_bit_eq_div)
  have "0 \<le> k AND 65280" "k AND 65280 \<le> 65280"
    using AND_upper2 [of 65280 k] by simp_all
  then have "0 \<le> (k AND 65280) div 256" "(k AND 65280) div 256 \<le> 255"
    by linarith+
  then show "byte (drop_bit 8 (k AND 65280))"
    by (simp add: byte_def drop_bit_eq_div)
  have "0 \<le> k AND 255" "k AND 255 \<le> 255"
    using AND_upper2 [of 255 k] by simp_all
  then show "byte (k AND 255)"
    by (simp add: byte_def)
qed

lemma rgb_of_masks:
  "rgb_of p = \<lparr>rgb_color = p,
      red = Num (of_int (drop_bit 16 (toInt32 p AND 16711680))),
      green = Num (of_int (drop_bit 8 (toInt32 p AND 65280))),
      blue = Num (of_int (toInt32 p AND 255))\<rparr>"
proof -
  let ?k = "toInt32 p"
  have m: "toInt32 (Num (of_int (?k AND 16711680))) = ?k AND 16711680"
    "toInt32 (Num (of_int (?k AND 65280))) = ?k AND 65280"
    using and_mask_range [of 16711680 ?k] and_mask_range [of 65280 ?k]
    by (simp_all add: toInt32_of_int del: toInt32.simps)
  show ?thesis
    by (simp add: rgb_of_def jsar_def jand_def toInt32_masks m del: toInt32.simps drop_bit_and)
qed

lemma clampedByte_byte: "byte k \<Longrightarrow> clampedByte (Num (of_int k)) = k"
  by (simp add: clampedByte_def byte_def)

lemma clampedByte_view:
  "Num (of_int (clampedByte (red (rgb_of p)))) = red (rgb_of p)"
  "Num (of_int (clampedByte (green (rgb_of p)))) = green (rgb_of p)"
  "Num (of_int (clampedByte (blue (rgb_of p)))) = blue (rgb_of p)"
  by (simp_all add: rgb_of_masks clampedByte_byte masked_byte del: drop_bit_and)

lemma set_rgb_clamped:
  assumes "coherent s"
  shows "rgb_of (col_c (set_red s v))
           = \<lparr>rgb_color = col_c (set_red s v), red = Num (of_int (clampedByte v)),
              green = green (rgb_of (col_c s)), blue = blue (rgb_of (col_c s))\<rparr>"
    and "rgb_of (col_c (set_green s v))
           = \<lparr>rgb_color = col_c (set_green s v), red = red (rgb_of (col_c s)),
              green = Num (of_int (clampedByte v)), blue = blue (rgb_of (col_c s))\<rparr>"
    and "rgb_of (col_c (set_blue s v))
           = \<lparr>rgb_color = col_c (set_blue s v), red = red (rgb_of (col_c s)),
              green = green (rgb_of (col_c s)), blue = Num (of_int (clampedByte v))\<rparr>"
proof -
  let ?r = "red (rgb_of (col_c s))"
  let ?g = "green (rgb_of (col_c s))"
  let ?b = "blue (rgb_of (col_c s))"
  note rgb = get_chan_coherent [OF assms]
  note r2 = get_chan_coherent [OF rgb(2)] and g2 = get_chan_coherent [OF rgb(4)]
  have "col_c (set_red s v)
          = Num (of_int (clampedByte v * 65536 + clampedByte ?g * 256 + clampedByte ?b))"
    by (simp add: set_red_def split_beta rgb g2 get_chan_frame rgb_color_clamped
        del: of_int_add of_int_mult)
  then show "rgb_of (col_c (set_red s v))
           = \<lparr>rgb_color = col_c (set_red s v), red = Num (of_int (clampedByte v)),
              green = ?g, blue = ?b\<rparr>"
    by (simp only: rgb_of_clamped clampedByte_view)
  have "col_c (set_green s v)
          = Num (of_int (clampedByte ?r * 65536 + clampedByte v * 256 + clampedByte ?b))"
    by (simp add: set_green_def split_beta rgb r2 get_chan_frame rgb_color_clamped
        del: of_int_add of_int_mult)
  then show "rgb_of (col_c (set_green s v))
           = \<lparr>rgb_color = col_c (set_green s v), red = ?r,
              green = Num (of_int (clampedByte v)), blue = ?b\<rparr>"
    by (simp only: rgb_of_clamped clampedByte_view)
  have "col_c (set_blue s v)
          = Num (of_int (clampedByte ?r * 65536 + clampedByte ?g * 256 + clampedByte v))"
    by (simp add: set_blue_def split_beta rgb r2 get_chan_frame rgb_color_clamped
        del: of_int_add of_int_mult)
  then show "rgb_of (col_c (set_blue s v))
           = \<lparr>rgb_color = col_c (set_blue s v), red = ?r, green = ?g,
              blue = Num (of_int (clampedByte v))\<rparr>"
    by (simp only: rgb_of_clamped clampedByte_view)
qed

subsection \<open>What the HSL write path stores\<close>

lemma hsl_inputs_clamped:
  "getColorValueFromHSL (Num h) (Num s) (Num l) a
     = getColorValueFromHSL (Num (max 0 (min h 360))) (Num (max 0 (min s 100)))
         (Num (max 0 (min l 100))) a"
  by (simp add: getColorValueFromHSL_def clamp_def)

text \<open>
  Inputs at which the rounding of the double arithmetic decides the stored byte: at
  hue 0, saturation 100, lightness 60 the three channels come out just below 51 and are
  stored as 50.
\<close>

lemma hsl_0_100_60:
  "getColorValueFromHSL (Num 0) (Num 100) (Num 60) (Some (Num 255))
     = \<lparr>color = Num 3289650, alpha = Num 255\<rparr>"
  by (simp add: resolver_defs number_defs rnd_defs)

lemma hsl_400_150_50:
  "getColorValueFromHSL (Num 400) (Num 150) (Num 50) (Some (Num 300))
     = \<lparr>color = Num 16711680, alpha = Num 255\<rparr>"
  by (simp add: resolver_defs number_defs rnd_defs)

lemma hsl_setters_on_red:
  "col_c (set_hue \<lparr>col_c = Num 16711680, col_a = Num 255, lhsl = None, lrgb = None\<rparr> (Num 200))
     = Num 16754944"
  "col_c (set_saturation \<lparr>col_c = Num 16711680, col_a = Num 255, lhsl = None, lrgb = None\<rparr>
            (Num 50)) = Num 4144959"
  "col_c (set_lightness \<lparr>col_c = Num 0, col_a = Num 255, lhsl = None, lrgb = None\<rparr> (Num 60))
     = Num 10066329"
  by (simp_all add: set_hue_def set_saturation_def set_lightness_def getter_defs
      getColorValueFromHSL_def hslSextant_def number_defs rnd_defs)

text \<open>
  C9. Every numeric write path clamps and then packs, and the reads do not clamp.
  \<^item> The constructor called with a number always returns an instance whose packed value
    is valid: a whole number from 0 to \<open>0xffffff\<close> whose red, green and blue fields are
    whole numbers from 0 to 255.
  \<^item> \<open>getColorValueFromRGB\<close> stores each channel limited to the range from 0 to 255
    with its fraction dropped (0 for \<open>NaN\<close>), red in bits 16 to 23, green in bits 8 to
    15, blue in bits 0 to 7, and returns the alpha limited to the range from 0 to 255;
    so does the constructor for a single number under colour mode RGB.
  \<^item> \<open>getColorValueFromHSL\<close> returns a valid packed value for every input, and the
    same one for a hue, saturation or lightness outside its range as for the nearest
    bound of the range; under colour mode HSL, \<open>new Color(0, 100, 60)\<close> stores
    \<open>0x323232\<close> and \<open>new Color(400, 150, 50, 300)\<close> stores \<open>0xff0000\<close> with
    alpha 255.
  \<^item> After each setter of red, green, blue, hue, saturation and lightness the packed
    value is valid, for every number set; on an instance a program can reach, the setter
    of red, green or blue makes that channel read as the clamped value and leaves the
    other two channels as they read before; the three HSL setters store \<open>0xffa900\<close>,
    \<open>0x3f3f3f\<close> and \<open>0x999999\<close> at the inputs shown.
  \<^item> The alpha read returns the stored field as it is, and the \<open>rgb\<close> view of a
    packed value made of three bytes is those three bytes.
\<close>

theorem numeric_writes_clamp_then_pack:
  "(\<exists>s0. Color_new mode (Number n) b c d = Inr s0 \<and> valid_packed (col_c s0))
   \<and> valid_packed (color (getColorValueFromRGB r g bl a))
   \<and> color (getColorValueFromRGB r g bl a)
       = Num (of_int (clampedByte r * 65536 + clampedByte g * 256 + clampedByte bl))
   \<and> alpha (getColorValueFromRGB r g bl (Num aq)) = Num (max 0 (min aq 255))
   \<and> Color_new RGB (Number n) None None None
       = Inr \<lparr>col_c = Num (of_int (clampedByte n * 65536 + clampedByte n * 256
                                    + clampedByte n)),
              col_a = Num 255, lhsl = None, lrgb = None\<rparr>
   \<and> valid_packed (color (getColorValueFromHSL h sa li al))
   \<and> getColorValueFromHSL (Num hq) (Num sq) (Num lq) al
       = getColorValueFromHSL (Num (max 0 (min hq 360))) (Num (max 0 (min sq 100)))
           (Num (max 0 (min lq 100))) al
   \<and> Color_new HSL (Number (Num 0)) (Some (Num 100)) (Some (Num 60)) None
       = Inr \<lparr>col_c = Num 3289650, col_a = Num 255, lhsl = None, lrgb = None\<rparr>
   \<and> Color_new HSL (Number (Num 400)) (Some (Num 150)) (Some (Num 50)) (Some (Num 300))
       = Inr \<lparr>col_c = Num 16711680, col_a = Num 255, lhsl = None, lrgb = None\<rparr>
   \<and> valid_packed (col_c (set_red s v)) \<and> valid_packed (col_c (set_green s v))
   \<and> valid_packed (col_c (set_blue s v)) \<and> valid_packed (col_c (set_hue s v))
   \<and> valid_packed (col_c (set_saturation s v)) \<and> valid_packed (col_c (set_lightness s v))
   \<and> (reachable s \<longrightarrow>
        rgb_of (col_c (set_red s v))
          = \<lparr>rgb_color = col_c (set_red s v), red = Num (of_int (clampedByte v)),
             green = green (rgb_of (col_c s)), blue = blue (rgb_of (col_c s))\<rparr>
        \<and> rgb_of (col_c (set_green s v))
          = \<lparr>rgb_color = col_c (set_green s v), red = red (rgb_of (col_c s)),
             green = Num (of_int (clampedByte v)), blue = blue (rgb_of (col_c s))\<rparr>
        \<and> rgb_of (col_c (set_blue s v))
          = \<lparr>rgb_color = col_c (set_blue s v), red = red (rgb_of (col_c s)),
             green = green (rgb_of (col_c s)), blue = Num (of_int (clampedByte v))\<rparr>)
   \<and> col_c (set_hue \<lparr>col_c = Num 16711680, col_a = Num 255, lhsl = None, lrgb = None\<rparr>
               (Num 200)) = Num 16754944
   \<and> col_c (set_saturation \<lparr>col_c = Num 16711680, col_a = Num 255, lhsl = None, lrgb = None\<rparr>
               (Num 50)) = Num 4144959
   \<and> col_c (set_lightness \<lparr>col_c = Num 0, col_a = Num 255, lhsl = None, lrgb = None\<rparr>
               (Num 60)) = Num 10066329
   \<and> get_alpha s = col_a s
   \<and> (byte rb \<and> byte gb \<and> byte bb \<longrightarrow>
        rgb_of (Num (of_int (rb * 65536 + gb * 256 + bb)))
          = \<lparr>rgb_color = Num (of_int (rb * 65536 + gb * 256 + bb)), red = Num (of_int rb),
             green = Num (of_int gb), blue = Num (of_int bb)\<rparr>)"
proof -
  have new: "\<exists>s0. Color_new mode (Number n) b c d = Inr s0 \<and> valid_packed (col_c s0)"
    by (simp add: Color_new_def parseParameters_def resolveNumeric_valid)
  have gray: "Color_new RGB (Number n) None None None
       = Inr \<lparr>col_c = Num (of_int (clampedByte n * 65536 + clampedByte n * 256
                                    + clampedByte n)),
              col_a = Num 255, lhsl = None, lrgb = None\<rparr>"
    using rgb_color_clamped [of n n n "Num 255"] rgb_alpha_clamped [of n n n 255]
    by (simp add: Color_new_def parseParameters_def resolveNumeric_def
        del: of_int_add of_int_mult)
  have hsl1: "Color_new HSL (Number (Num 0)) (Some (Num 100)) (Some (Num 60)) None
       = Inr \<lparr>col_c = Num 3289650, col_a = Num 255, lhsl = None, lrgb = None\<rparr>"
    using hsl_0_100_60 by (simp add: Color_new_def parseParameters_def resolveNumeric_def)
  have hsl2: "Color_new HSL (Number (Num 400)) (Some (Num 150)) (Some (Num 50))
                (Some (Num 300))
       = Inr \<lparr>col_c = Num 16711680, col_a = Num 255, lhsl = None, lrgb = None\<rparr>"
    using hsl_400_150_50 by (simp add: Color_new_def parseParameters_def resolveNumeric_def)
  have setv: "valid_packed (col_c (set_red s v))" "valid_packed (col_c (set_green s v))"
    "valid_packed (col_c (set_blue s v))" "valid_packed (col_c (set_hue s v))"
    "valid_packed (col_c (set_saturation s v))" "valid_packed (col_c (set_lightness s v))"
    by (simp_all add: set_red_def set_green_def set_blue_def set_hue_def set_saturation_def
        set_lightness_def split_beta rgb_color_valid hsl_color_valid)
  have view: "byte rb \<and> byte gb \<and> byte bb \<longrightarrow>
        rgb_of (Num (of_int (rb * 65536 + gb * 256 + bb)))
          = \<lparr>rgb_color = Num (of_int (rb * 65536 + gb * 256 + bb)), red = Num (of_int rb),
             green = Num (of_int gb), blue = Num (of_int bb)\<rparr>"
  proof (intro impI, elim conjE)
    assume bytes: "byte rb" "byte gb" "byte bb"
    show "rgb_of (Num (of_int (rb * 65536 + gb * 256 + bb)))
          = \<lparr>rgb_color = Num (of_int (rb * 65536 + gb * 256 + bb)), red = Num (of_int rb),
             green = Num (of_int gb), blue = Num (of_int bb)\<rparr>"
      using rgb_of_packInt [OF bytes] by (simp add: packInt_sum [OF bytes])
  qed
  have rgbv: "valid_packed (color (getColorValueFromRGB r g bl a))"
    by (rule rgb_color_valid)
  have rgbc: "color (getColorValueFromRGB r g bl a)
       = Num (of_int (clampedByte r * 65536 + clampedByte g * 256 + clampedByte bl))"
    by (rule rgb_color_clamped)
  have rgba: "alpha (getColorValueFromRGB r g bl (Num aq)) = Num (max 0 (min aq 255))"
    by (rule rgb_alpha_clamped)
  have hslv: "valid_packed (color (getColorValueFromHSL h sa li al))"
    by (rule hsl_color_valid)
  have hslc: "getColorValueFromHSL (Num hq) (Num sq) (Num lq) al
       = getColorValueFromHSL (Num (max 0 (min hq 360))) (Num (max 0 (min sq 100)))
           (Num (max 0 (min lq 100))) al"
    by (rule hsl_inputs_clamped)
  have setc: "reachable s \<longrightarrow>
        rgb_of (col_c (set_red s v))
          = \<lparr>rgb_color = col_c (set_red s v), red = Num (of_int (clampedByte v)),
             green = green (rgb_of (col_c s)), blue = blue (rgb_of (col_c s))\<rparr>
        \<and> rgb_of (col_c (set_green s v))
          = \<lparr>rgb_color = col_c (set_green s v), red = red (rgb_of (col_c s)),
             green = Num (of_int (clampedByte v)), blue = blue (rgb_of (col_c s))\<rparr>
        \<and> rgb_of (col_c (set_blue s v))
          = \<lparr>rgb_color = col_c (set_blue s v), red = red (rgb_of (col_c s)),
             green = green (rgb_of (col_c s)), blue = Num (of_int (clampedByte v))\<rparr>"
    using set_rgb_clamped [OF reachable_coherent, of s v] by blast
  have al: "get_alpha s = col_a s"
    by (simp add: get_alpha_def)
  note hsls = hsl_setters_on_red
  show ?thesis
    by (intro conjI; fact)
qed

theorem numeric_writes_clamp_then_pack_witness:
  "reachable \<lparr>col_c = Num 0, col_a = Num 255, lhsl = None, lrgb = None\<rparr>
   \<and> rgb_of (col_c (set_red \<lparr>col_c = Num 0, col_a = Num 255, lhsl = None, lrgb = None\<rparr>
                       (Num 300)))
       = \<lparr>rgb_color = col_c (set_red \<lparr>col_c = Num 0, col_a = Num 255, lhsl = None,
                                      lrgb = None\<rparr> (Num 300)),
          red = Num 255, green = Num 0, blue = Num 0\<rparr>
   \<and> byte 51 \<and> byte 102 \<and> byte 153
   \<and> rgb_of (Num 3368601)
       = \<lparr>rgb_color = Num 3368601, red = Num 51, green = Num 102, blue = Num 153\<rparr>"
proof -
  let ?black = "\<lparr>col_c = Num 0, col_a = Num 255, lhsl = None, lrgb = None\<rparr>"
  have r: "reachable ?black"
    by (rule reachable.new [OF black_then_red(1)])
  have b: "byte 51" "byte 102" "byte 153"
    by (simp_all add: byte_def)
  have z: "green (rgb_of (Num 0)) = Num 0" "blue (rgb_of (Num 0)) = Num 0"
    by (simp_all add: rgb_of_def number_defs)
  have c: "clampedByte (Num 300) = 255"
    by (simp add: clampedByte_def)
  show ?thesis
    using numeric_writes_clamp_then_pack [of _ _ _ _ _ _ _ _ _ _ _ _ _ _ _ _ _ ?black "Num 300" 51 102 153]
      r b z c
    by simp
qed

end
